theory Spec2Isabelle
  imports Complex_Main "HOL-Library.Sublist" "HOL-Library.Word"
begin

section \<open>Python values used by the console drivers\<close>

text \<open>
  Text is a list of characters; a character stands for a code point below 256. Python
  integers are \<open>int\<close>. An exception is a value of \<open>error\<close>; a \<open>RuntimeError\<close> and the
  plain \<open>Exception\<close> carry their message, a \<open>TypeError\<close> the keyword the call did not expect.
\<close>

datatype error =
    AssertionError
  | IndexError
  | ValueError
  | AddressValueError
  | RuntimeError string
  | TypeError string
  | Exception string

text \<open>\<open>s[i:]\<close>: a negative start counts from the end and is clipped at the beginning.\<close>

definition py_slice_from :: "'a list \<Rightarrow> int \<Rightarrow> 'a list" where
  "py_slice_from s i =
     (if i < 0 then drop (nat (int (length s) + i)) s else drop (nat i) s)"

text \<open>\<open>str(n)\<close> for an integer, as the f-strings of the drivers print ports and counts.\<close>

definition digit_chr :: "nat \<Rightarrow> char" where
  "digit_chr d = ''0123456789'' ! d"

function str_nat :: "nat \<Rightarrow> string" where
  "str_nat n = (if n < 10 then [digit_chr n] else str_nat (n div 10) @ [digit_chr (n mod 10)])"
  by pat_completeness auto
termination
  by (relation "measure id") auto

declare str_nat.simps [simp del]

definition str_int :: "int \<Rightarrow> string" where
  "str_int i = (if i < 0 then CHR ''-'' # str_nat (nat (- i)) else str_nat (nat i))"

text \<open>
  \<open>s.split(sep)\<close> for a non-empty separator (every call of the drivers passes a literal):
  the pieces between the occurrences of \<open>sep\<close>, taken from the left.
\<close>

function split_from :: "string \<Rightarrow> string \<Rightarrow> string \<Rightarrow> string list" where
  "split_from sep cur [] = [cur]"
| "split_from sep cur (c # cs) =
     (if sep \<noteq> [] \<and> prefix sep (c # cs)
      then cur # split_from sep [] (drop (length sep) (c # cs))
      else split_from sep (cur @ [c]) cs)"
  by pat_completeness auto
termination
  by (relation "measure (\<lambda>(sep, cur, s). length s)") auto

definition py_split :: "string \<Rightarrow> string \<Rightarrow> string list" where
  "py_split s sep = split_from sep [] s"

text \<open>
  \<open>str.isdigit\<close>: non-empty and every character a digit. Below code point 256 the digits
  are \<open>0\<close> to \<open>9\<close> and the superscripts two, three and one, which \<open>int\<close> refuses.
\<close>

definition ascii_digit :: "char \<Rightarrow> bool" where
  "ascii_digit c = (c \<in> set ''0123456789'')"

definition isdigit_char :: "char \<Rightarrow> bool" where
  "isdigit_char c = (ascii_digit c \<or> c \<in> {CHR 0xB2, CHR 0xB3, CHR 0xB9})"

definition isdigit :: "string \<Rightarrow> bool" where
  "isdigit s = (s \<noteq> [] \<and> list_all isdigit_char s)"

definition digit_val :: "char \<Rightarrow> int" where
  "digit_val c = int (of_char c) - 48"

text \<open>\<open>int(s)\<close> on a text that passed \<open>isdigit\<close>: the decimal value, or \<open>ValueError\<close>.\<close>

definition py_int :: "string \<Rightarrow> error + int" where
  "py_int s =
     (if s \<noteq> [] \<and> list_all ascii_digit s
      then Inr (foldl (\<lambda>acc c. 10 * acc + digit_val c) 0 s)
      else Inl ValueError)"

text \<open>\<open>p or d\<close> for an optional integer: \<open>None\<close> and \<open>0\<close> are both false.\<close>

definition py_or :: "int option \<Rightarrow> int \<Rightarrow> int" where
  "py_or p d = (case p of None \<Rightarrow> d | Some v \<Rightarrow> if v = 0 then d else v)"

section \<open>Regular expressions of the drivers\<close>

text \<open>
  The stop patterns of the repository are sequences of literal characters, \<open>\d\<close> and
  \<open>\d+\<close>. A pattern is kept as its syntax: \<open>pattern_len\<close> is the length of its text and
  \<open>re_search\<close> is \<open>re.search\<close>, true when some substring matches.
\<close>

datatype atom = Lit char | Digit

datatype piece = Once atom | Repeat1 atom

type_synonym pattern = "piece list"

fun atom_matches :: "atom \<Rightarrow> char \<Rightarrow> bool" where
  "atom_matches (Lit c) x = (x = c)"
| "atom_matches Digit x = ascii_digit x"

fun match_here :: "pattern \<Rightarrow> string \<Rightarrow> bool" where
  "match_here [] s = True"
| "match_here (Once a # ps) [] = False"
| "match_here (Once a # ps) (c # cs) = (atom_matches a c \<and> match_here ps cs)"
| "match_here (Repeat1 a # ps) [] = False"
| "match_here (Repeat1 a # ps) (c # cs) =
     (atom_matches a c \<and> (match_here (Repeat1 a # ps) cs \<or> match_here ps cs))"

fun re_search :: "pattern \<Rightarrow> string \<Rightarrow> bool" where
  "re_search p [] = match_here p []"
| "re_search p (c # cs) = (match_here p (c # cs) \<or> re_search p cs)"

fun atom_len :: "atom \<Rightarrow> nat" where
  "atom_len (Lit c) = (if c \<in> set ''.^$*+?{}[]|()'' \<or> c = CHR 0x5C then 2 else 1)"
| "atom_len Digit = 2"

fun piece_len :: "piece \<Rightarrow> nat" where
  "piece_len (Once a) = atom_len a"
| "piece_len (Repeat1 a) = atom_len a + 1"

definition pattern_len :: "pattern \<Rightarrow> nat" where
  "pattern_len p = sum_list (map piece_len p)"

definition literal :: "string \<Rightarrow> pattern" where
  "literal s = map (\<lambda>c. Once (Lit c)) s"

definition CR :: char where "CR = CHR 0x0D"
definition LF :: char where "LF = CHR 0x0A"

section \<open>helpers.py: watch_command\<close>

text \<open>
  The channel is the environment. Its behaviour is a script of ticks, one for each pass of
  the loop of \<open>watch_command\<close> (a pass begins with the 10 ms sleep): what
  \<open>exit_status_ready\<close> answers at the loop test, the decoded data that \<open>recv\<close> and
  \<open>recv_stderr\<close> deliver when ready, and whether the deadline has passed at the end of the
  pass. A script that ends while the loop still waits gives no result.
\<close>

record tick =
  exit_ready :: bool
  stdout_data :: "string option"
  stderr_data :: "string option"
  late :: bool

text \<open>
  The nested \<open>continue_running\<close>. The matcher is the first argument (\<open>re.search\<close> at each
  call of this development); \<open>stopped\<close> is the value \<open>stop_condition()\<close> has at this test.
\<close>

definition continue_running ::
  "('p \<Rightarrow> string \<Rightarrow> bool) \<Rightarrow> 'p option \<Rightarrow> int \<Rightarrow> bool \<Rightarrow> string \<Rightarrow> bool" where
  "continue_running search stop_pattern max_match_length stopped output =
     (case stop_pattern of
        Some p \<Rightarrow>
          (let search_len = min (int (length output)) max_match_length
           in if search p (py_slice_from output (- search_len)) then False
              else \<not> stopped)
      | None \<Rightarrow> \<not> stopped)"

definition received :: "string option \<Rightarrow> string" where
  "received d = (case d of None \<Rightarrow> [] | Some x \<Rightarrow> x)"

text \<open>
  The loop, from an output accumulated so far. A stop at the loop test leaves the tick
  unread; with the script at its end only the pattern can still stop the loop.
\<close>

fun watch_loop ::
  "('p \<Rightarrow> string \<Rightarrow> bool) \<Rightarrow> (tick \<Rightarrow> bool) \<Rightarrow> bool \<Rightarrow> 'p option \<Rightarrow> int \<Rightarrow>
   string \<Rightarrow> tick list \<Rightarrow> (string \<times> tick list) option" where
  "watch_loop search stop_condition has_timeout stop_pattern max_match_length output [] =
     (if continue_running search stop_pattern max_match_length False output then None
      else Some (output, []))"
| "watch_loop search stop_condition has_timeout stop_pattern max_match_length output (t # ts) =
     (if continue_running search stop_pattern max_match_length (stop_condition t) output
      then
        (let output1 = output @ received (stdout_data t);
             output2 = output1 @ received (stderr_data t)
         in if has_timeout \<and> late t then Some (output2, ts)
            else watch_loop search stop_condition has_timeout stop_pattern max_match_length
                   output2 ts)
      else Some (output, t # ts))"

text \<open>
  \<open>watch_command\<close> itself: the default stop condition is \<open>command.exit_status_ready\<close>, the
  deadline exists when a timeout is given, and the output starts empty. The forwarding to
  the local streams and the keyboard interrupt are left out.
\<close>

definition stop_test :: "(tick \<Rightarrow> bool) option \<Rightarrow> tick \<Rightarrow> bool" where
  "stop_test stop_condition = (case stop_condition of None \<Rightarrow> exit_ready | Some f \<Rightarrow> f)"

definition watch_command ::
  "('p \<Rightarrow> string \<Rightarrow> bool) \<Rightarrow> (tick \<Rightarrow> bool) option \<Rightarrow> real option \<Rightarrow> 'p option \<Rightarrow> int \<Rightarrow>
   tick list \<Rightarrow> (string \<times> tick list) option" where
  "watch_command search stop_condition timeout stop_pattern max_match_length command =
     watch_loop search (stop_test stop_condition) (timeout \<noteq> None) stop_pattern
       max_match_length [] command"

section \<open>helpers.py: run_console_commands\<close>

text \<open>
  What the drivers do to the outside is kept in a trace, in order: the remote commands they
  launch, the data they send, the sleeps between attempts and polls (in milliseconds). A
  console is a channel with the trace. An operation returns a value, raises, or is still
  waiting when the script of the channel ends; each outcome carries the state reached.
\<close>

datatype event = Launch string | Send string | Sleep nat

record console =
  chan :: "tick list"
  trace :: "event list"

datatype ('a, 's) result = Returns 'a 's | Raises error 's | Pending 's

definition and_then ::
  "('a, 's) result \<Rightarrow> ('a \<Rightarrow> 's \<Rightarrow> ('b, 's) result) \<Rightarrow> ('b, 's) result" where
  "and_then r f =
     (case r of Returns v s \<Rightarrow> f v s | Raises e s \<Rightarrow> Raises e s | Pending s \<Rightarrow> Pending s)"

fun state_of :: "('a, 's) result \<Rightarrow> 's" where
  "state_of (Returns v s) = s"
| "state_of (Raises e s) = s"
| "state_of (Pending s) = s"

definition send :: "string \<Rightarrow> 'a console_scheme \<Rightarrow> 'a console_scheme" where
  "send data c = c\<lparr>trace := trace c @ [Send data]\<rparr>"

definition sleep :: "nat \<Rightarrow> 'a console_scheme \<Rightarrow> 'a console_scheme" where
  "sleep ms c = c\<lparr>trace := trace c @ [Sleep ms]\<rparr>"

text \<open>\<open>commands\<close> is one command or a list of them.\<close>

datatype command_arg = Single string | Several "string list"

fun as_list :: "command_arg \<Rightarrow> string list" where
  "as_list (Single cmd) = [cmd]"
| "as_list (Several cmds) = cmds"

fun run_commands_loop ::
  "real option \<Rightarrow> pattern option \<Rightarrow> int \<Rightarrow> string \<Rightarrow> string list \<Rightarrow> 'a console_scheme \<Rightarrow>
   (string, 'a console_scheme) result" where
  "run_commands_loop timeout console_pattern console_pattern_len output [] console =
     Returns output console"
| "run_commands_loop timeout console_pattern console_pattern_len output (cmd # cmds) console =
     (let console1 = send (cmd @ [LF]) console
      in case watch_command re_search None timeout console_pattern console_pattern_len
                (chan console1) of
           None \<Rightarrow> Pending console1
         | Some (out, rest) \<Rightarrow>
             run_commands_loop timeout console_pattern console_pattern_len (output @ out) cmds
               (console1\<lparr>chan := rest\<rparr>))"

text \<open>
  Without a console pattern the length is \<open>None\<close> in the source and never read; the model
  passes 0 there.
\<close>

definition run_console_commands ::
  "command_arg \<Rightarrow> real option \<Rightarrow> pattern option \<Rightarrow> 'a console_scheme \<Rightarrow>
   (string, 'a console_scheme) result" where
  "run_console_commands commands timeout console_pattern console =
     (let console_pattern_len =
            (case console_pattern of Some p \<Rightarrow> int (pattern_len p) | None \<Rightarrow> 0)
      in run_commands_loop timeout console_pattern console_pattern_len [] (as_list commands)
           console)"

section \<open>pktgen/dpdk.py: DpdkPktgen\<close>

text \<open>
  The controller: the fields the operations below read and write, over the console of the
  generator (\<open>chan\<close> is \<open>self.pktgen\<close>) and the exit status its process reports.
\<close>

record dpdk_pktgen = console +
  tx_port :: int
  rx_port :: int
  use_pcap :: bool
  pktgen_active :: bool
  ready :: bool
  target_pkt_tx :: int
  exit_status :: int

definition SQ :: char where "SQ = CHR 0x27"
definition DQ :: char where "DQ = CHR 0x22"

definition ready_prompt :: pattern where
  "ready_prompt = literal (CR # LF # ''Pktgen:/>'')"

definition console_prompt :: pattern where
  "console_prompt = literal (CR # LF # ''Pktgen:/> '')"

definition stats_pattern :: pattern where
  "stats_pattern = [Once (Lit CR), Once (Lit LF), Repeat1 Digit, Once (Lit CR), Once (Lit LF)]"

definition wait_ready :: "dpdk_pktgen \<Rightarrow> (unit, dpdk_pktgen) result" where
  "wait_ready s =
     (if \<not> pktgen_active s then Raises AssertionError s
      else case chan s of
        [] \<Rightarrow> Pending s
      | t # _ \<Rightarrow>
          if exit_ready t \<and> exit_status s \<noteq> 0
          then Raises (Exception ''Cannot run pktgen'') (s\<lparr>pktgen_active := False\<rparr>)
          else (case watch_command re_search None None (Some ready_prompt) 1024 (chan s) of
                  None \<Rightarrow> Pending s
                | Some (out, rest) \<Rightarrow> Returns () (s\<lparr>chan := rest, ready := True\<rparr>)))"

definition commands ::
  "command_arg \<Rightarrow> real option \<Rightarrow> dpdk_pktgen \<Rightarrow> (unit, dpdk_pktgen) result" where
  "commands cmds timeout s =
     (if \<not> pktgen_active s then Raises AssertionError s
      else and_then (run_console_commands cmds timeout (Some console_prompt) s)
             (\<lambda>out s'. Returns () s'))"

text \<open>\<open>_get_stats\<close>: the query text, and the value read from the transcript.\<close>

definition stats_query :: "string \<Rightarrow> string \<Rightarrow> int \<Rightarrow> string" where
  "stats_query subtype stat_name port =
     [LF] @ ''lua '' @ [SQ] @ ''print(pktgen.portStats('' @ [DQ] @ ''all'' @ [DQ] @ '', '' @
     [DQ] @ subtype @ [DQ] @ '')['' @ str_int port @ ''].'' @ stat_name @ '')'' @ [SQ] @ [LF]"

definition stats_value :: "string \<Rightarrow> error + int" where
  "stats_value output =
     (let lines = py_split output [CR, LF];
          lines = filter isdigit lines
      in if lines = [] then Inl IndexError else py_int (last lines))"

definition get_stats ::
  "string \<Rightarrow> string \<Rightarrow> int \<Rightarrow> dpdk_pktgen \<Rightarrow> (int, dpdk_pktgen) result" where
  "get_stats subtype stat_name port s =
     (if \<not> pktgen_active s then Raises AssertionError s
      else
        (let s1 = send (stats_query subtype stat_name port) s
         in case watch_command re_search None None (Some stats_pattern) 1024 (chan s1) of
              None \<Rightarrow> Pending s1
            | Some (out, rest) \<Rightarrow>
                (case stats_value out of
                   Inl e \<Rightarrow> Raises e (s1\<lparr>chan := rest\<rparr>)
                 | Inr v \<Rightarrow> Returns v (s1\<lparr>chan := rest\<rparr>))))"

definition get_pkts_rx_rate :: "int option \<Rightarrow> dpdk_pktgen \<Rightarrow> (int, dpdk_pktgen) result" where
  "get_pkts_rx_rate port s = get_stats ''rate'' ''pkts_rx'' (py_or port (rx_port s)) s"

definition get_pkts_tx_rate :: "int option \<Rightarrow> dpdk_pktgen \<Rightarrow> (int, dpdk_pktgen) result" where
  "get_pkts_tx_rate port s = get_stats ''rate'' ''pkts_tx'' (py_or port (tx_port s)) s"

definition get_mbits_rx :: "int option \<Rightarrow> dpdk_pktgen \<Rightarrow> (int, dpdk_pktgen) result" where
  "get_mbits_rx port s = get_stats ''rate'' ''mbits_rx'' (py_or port (rx_port s)) s"

definition get_mbits_tx :: "int option \<Rightarrow> dpdk_pktgen \<Rightarrow> (int, dpdk_pktgen) result" where
  "get_mbits_tx port s = get_stats ''rate'' ''mbits_rx'' (py_or port (tx_port s)) s"

definition get_nb_rx_pkts :: "int option \<Rightarrow> dpdk_pktgen \<Rightarrow> (int, dpdk_pktgen) result" where
  "get_nb_rx_pkts port s = get_stats ''port'' ''ipackets'' (py_or port (rx_port s)) s"

definition get_nb_rx_bytes :: "int option \<Rightarrow> dpdk_pktgen \<Rightarrow> (int, dpdk_pktgen) result" where
  "get_nb_rx_bytes port s = get_stats ''port'' ''ibytes'' (py_or port (rx_port s)) s"

definition get_nb_tx_pkts :: "int option \<Rightarrow> dpdk_pktgen \<Rightarrow> (int, dpdk_pktgen) result" where
  "get_nb_tx_pkts port s = get_stats ''port'' ''opackets'' (py_or port (tx_port s)) s"

definition get_nb_tx_bytes :: "int option \<Rightarrow> dpdk_pktgen \<Rightarrow> (int, dpdk_pktgen) result" where
  "get_nb_tx_bytes port s = get_stats ''port'' ''obytes'' (py_or port (tx_port s)) s"

definition get_rx_throughput :: "int option \<Rightarrow> dpdk_pktgen \<Rightarrow> (int, dpdk_pktgen) result" where
  "get_rx_throughput port s =
     and_then (get_mbits_rx (Some (rx_port s)) s) (\<lambda>v s'. Returns (v * 1000000) s')"

definition get_tx_throughput :: "int option \<Rightarrow> dpdk_pktgen \<Rightarrow> (int, dpdk_pktgen) result" where
  "get_tx_throughput port s =
     and_then (get_mbits_tx (Some (tx_port s)) s) (\<lambda>v s'. Returns (v * 1000000) s')"

text \<open>
  The rate is a Python float; how it prints is the interpreter's business and enters as the
  function \<open>str_float\<close>. Comparisons of a float with 0 and 100 are exact, so the capacity is
  a real number here.
\<close>

definition set_rate ::
  "(real \<Rightarrow> string) \<Rightarrow> real \<Rightarrow> int option \<Rightarrow> dpdk_pktgen \<Rightarrow> (unit, dpdk_pktgen) result" where
  "set_rate str_float capacity port s =
     (if \<not> (capacity > 0 \<and> capacity \<le> 100) then Raises AssertionError s
      else
        (let p = py_or port (tx_port s)
         in commands (Single (''set '' @ str_int p @ '' rate '' @ str_float capacity))
              (Some 0.5) s))"

definition stop :: "int option \<Rightarrow> dpdk_pktgen \<Rightarrow> (unit, dpdk_pktgen) result" where
  "stop port s =
     (if \<not> pktgen_active s then Raises AssertionError s
      else commands (Single (''stop '' @ str_int (py_or port (tx_port s)))) (Some 0.5) s)"

definition start ::
  "(real \<Rightarrow> string) \<Rightarrow> real \<Rightarrow> int \<Rightarrow> int option \<Rightarrow> dpdk_pktgen \<Rightarrow>
   (unit, dpdk_pktgen) result" where
  "start str_float capacity nb_pkts port s =
     (if \<not> pktgen_active s then Raises AssertionError s
      else
        (let p = py_or port (tx_port s)
         in and_then (if \<not> ready s then wait_ready s else Returns () s)
              (\<lambda>_ s1.
                 let cmds = (if use_pcap s1 then [''enable '' @ str_int p @ '' pcap''] else [])
                 in and_then (get_nb_tx_pkts None s1)
                      (\<lambda>v s2.
                         commands
                           (Several
                              (cmds @
                               [''set '' @ str_int p @ '' count '' @ str_int nb_pkts,
                                ''set '' @ str_int p @ '' rate '' @ str_float capacity,
                                ''start '' @ str_int p]))
                           (Some 0.5) (s2\<lparr>target_pkt_tx := v + nb_pkts\<rparr>)))))"

text \<open>
  \<open>set_params\<close>. The initial address is an IPv4 address, held as its 32-bit value; adding an
  integer to an address raises when the sum leaves the 32 bits.
\<close>

definition ip_plus :: "32 word \<Rightarrow> int \<Rightarrow> error + 32 word" where
  "ip_plus a n =
     (let v = uint a + n
      in if v < 0 \<or> v > 4294967295 then Inl AddressValueError else Inr (word_of_int v))"

definition str_ip :: "32 word \<Rightarrow> string" where
  "str_ip a =
     (let n = unat a
      in str_nat (n div 16777216) @ ''.'' @ str_nat (n div 65536 mod 256) @ ''.'' @
         str_nat (n div 256 mod 256) @ ''.'' @ str_nat (n mod 256))"

definition default_init_ip :: "32 word" where
  "default_init_ip = 0xC0A80000"

definition max_ip :: "32 word \<Rightarrow> int \<Rightarrow> error + 32 word" where
  "max_ip init_ip nb =
     (case ip_plus init_ip nb of Inl e \<Rightarrow> Inl e | Inr a \<Rightarrow> ip_plus a (- 1))"

definition set_params ::
  "int \<Rightarrow> int \<Rightarrow> int \<Rightarrow> 32 word option \<Rightarrow> int \<Rightarrow> int option \<Rightarrow> dpdk_pktgen \<Rightarrow>
   (unit, dpdk_pktgen) result" where
  "set_params pkt_size nb_src nb_dst init_ip init_port port s =
     (let init_ip = (case init_ip of None \<Rightarrow> default_init_ip | Some a \<Rightarrow> a)
      in case max_ip init_ip nb_src of
           Inl e \<Rightarrow> Raises e s
         | Inr max_src_ip \<Rightarrow>
             (case max_ip init_ip nb_dst of
                Inl e \<Rightarrow> Raises e s
              | Inr max_dst_ip \<Rightarrow>
                  (let p = (case port of None \<Rightarrow> tx_port s | Some v \<Rightarrow> v)
                   in and_then (if \<not> ready s then wait_ready s else Returns () s)
                        (\<lambda>_ s1.
                           commands
                             (Several
                                [''range '' @ str_int p @ '' dst port start '' @ str_int init_port,
                                 ''range '' @ str_int p @ '' src ip max '' @ str_ip max_src_ip,
                                 ''range '' @ str_int p @ '' dst ip max '' @ str_ip max_dst_ip,
                                 ''range '' @ str_int p @ '' size start '' @ str_int pkt_size,
                                 ''range '' @ str_int p @ '' size min '' @ str_int pkt_size,
                                 ''range '' @ str_int p @ '' size max '' @ str_int pkt_size])
                             (Some 0.5) s1))))"

text \<open>
  \<open>wait_transmission_done\<close>. Each pass sleeps one second and polls the transmitted-packet
  counter. A poll that returns a value has read at least one tick of the script, which is
  why the loop is a total function.
\<close>

lemma watch_loop_consumes:
  "watch_loop search sc to sp m out ts = Some (out', rest) \<Longrightarrow>
   length rest \<le> length ts \<and> (length rest = length ts \<longrightarrow> out' = out)"
proof (induction ts arbitrary: out)
  case Nil
  then show ?case by (auto split: if_splits)
next
  case (Cons t ts)
  show ?case
  proof (cases "continue_running search sp m (sc t) out")
    case False
    with Cons.prems show ?thesis by simp
  next
    case True
    show ?thesis
    proof (cases "to \<and> late t")
      case True
      with \<open>continue_running search sp m (sc t) out\<close> Cons.prems show ?thesis
        by (auto simp: Let_def)
    next
      case False
      with \<open>continue_running search sp m (sc t) out\<close> Cons.prems
      have "watch_loop search sc to sp m
              ((out @ received (stdout_data t)) @ received (stderr_data t)) ts = Some (out', rest)"
        by (auto simp: Let_def)
      from Cons.IH[OF this] show ?thesis by auto
    qed
  qed
qed

lemma stats_value_Nil: "stats_value [] = Inl IndexError"
  by (simp add: stats_value_def py_split_def isdigit_def)

lemma get_stats_consumes:
  assumes "get_stats subtype stat_name port s = Returns v s'"
  shows "length (chan s') < length (chan s)"
proof -
  from assms have act: "pktgen_active s"
    by (auto simp: get_stats_def split: if_splits)
  let ?s1 = "send (stats_query subtype stat_name port) s"
  have c1: "chan ?s1 = chan s" by (simp add: send_def)
  from assms act obtain out rest where
    w: "watch_command re_search None None (Some stats_pattern) 1024 (chan s) = Some (out, rest)"
    and v: "stats_value out = Inr v" and s': "s' = ?s1\<lparr>chan := rest\<rparr>"
    by (auto simp: get_stats_def Let_def c1 split: option.splits sum.splits)
  from v have "out \<noteq> []" using stats_value_Nil by auto
  with w watch_loop_consumes[of re_search "stop_test None" False "Some stats_pattern" 1024 "[]"
      "chan s" out rest]
  have "length rest < length (chan s)"
    by (auto simp: watch_command_def)
  then show ?thesis by (simp add: s')
qed

function wait_loop :: "int \<Rightarrow> dpdk_pktgen \<Rightarrow> (unit, dpdk_pktgen) result" where
  "wait_loop pkts_tx s =
     (if pkts_tx < target_pkt_tx s
      then
        (case get_nb_tx_pkts None (sleep 1000 s) of
           Returns v s' \<Rightarrow>
             if pkts_tx = v then Raises (RuntimeError ''Pktgen is not making progress'') s'
             else wait_loop v s'
         | Raises e s' \<Rightarrow> Raises e s'
         | Pending s' \<Rightarrow> Pending s')
      else Returns () s)"
  by pat_completeness auto
termination
proof (relation "measure (\<lambda>(pkts_tx, s). length (chan s))")
  show "wf (measure (\<lambda>(pkts_tx, s). length (chan s)))" by simp
next
  fix pkts_tx :: int and s :: dpdk_pktgen and v s'
  assume "get_nb_tx_pkts None (sleep 1000 s) = Returns v s'"
  then have "length (chan s') < length (chan (sleep 1000 s))"
    unfolding get_nb_tx_pkts_def by (rule get_stats_consumes)
  then show "((v, s'), pkts_tx, s) \<in> measure (\<lambda>(pkts_tx, s). length (chan s))"
    by (simp add: sleep_def)
qed

declare wait_loop.simps [simp del]

definition wait_transmission_done :: "dpdk_pktgen \<Rightarrow> (unit, dpdk_pktgen) result" where
  "wait_transmission_done s =
     (if \<not> pktgen_active s then Raises AssertionError s else wait_loop 0 s)"

section \<open>helpers.py: RemoteIntelFpga\<close>

text \<open>
  The device. \<open>remote_command\<close> is the helper at the head of the file, with the parameters
  \<open>client\<close>, \<open>command\<close>, \<open>pty\<close> and \<open>print_command\<close>. Python binds a call to the parameters
  before the body runs: a keyword that names none of them raises \<open>TypeError\<close> (here carrying
  the first such keyword) and the body is not entered. The body of a call that is bound
  opens a session on the transport of the client and executes the command there;
  \<open>sessions\<close> lists, for the sessions to come, the script of the channel and the exit
  status its process reports. The client is the SSH client of the device, taken as
  connected. \<open>setup\<close> and \<open>launch_console\<close> call the helper with the keywords \<open>pty\<close>, \<open>dir\<close>
  and \<open>source_bashrc\<close>. \<open>chan\<close> is \<open>self.jtag_console\<close> once \<open>jtag_console\<close> says it is set.
\<close>

record fpga = console +
  fpga_id :: string
  remote_dir :: string
  jtag_console :: bool
  sessions :: "(tick list \<times> int) list"

definition remote_command_parameters :: "string list" where
  "remote_command_parameters = [''client'', ''command'', ''pty'', ''print_command'']"

definition unexpected_keywords :: "string list \<Rightarrow> string list" where
  "unexpected_keywords keywords =
     filter (\<lambda>k. k \<notin> set remote_command_parameters) keywords"

definition remote_command :: "string \<Rightarrow> string list \<Rightarrow> fpga \<Rightarrow> (tick list \<times> int, fpga) result" where
  "remote_command command keywords s =
     (case unexpected_keywords keywords of
        k # _ \<Rightarrow> Raises (TypeError k) s
      | [] \<Rightarrow>
          (case sessions s of
             [] \<Rightarrow> Pending s
           | x # xs \<Rightarrow> Returns x (s\<lparr>sessions := xs, trace := trace s @ [Launch command]\<rparr>)))"

definition jtag_prompt :: pattern where
  "jtag_prompt = literal [CR, LF, CHR ''%'', CHR '' '']"

definition run_jtag_commands :: "command_arg \<Rightarrow> fpga \<Rightarrow> (string, fpga) result" where
  "run_jtag_commands cmds s = run_console_commands cmds (Some 1) (Some jtag_prompt) s"

definition load_bitstream_cmd :: "fpga \<Rightarrow> string" where
  "load_bitstream_cmd s = ''./load_bitstream.sh '' @ fpga_id s"

definition run_console_cmd :: "fpga \<Rightarrow> string" where
  "run_console_cmd s = ''./run_console.sh '' @ fpga_id s"

definition sync_failed :: error where
  "sync_failed = RuntimeError ''Synchronization failed, try power cycling the host''"

definition load_failed :: "int \<Rightarrow> error" where
  "load_failed retries = RuntimeError (''Failed to load bitstream '' @ str_int retries @ '' times'')"

definition device_failed :: "int \<Rightarrow> error" where
  "device_failed retries =
     RuntimeError (''Failed to determine device '' @ str_int retries @ '' times'')"

text \<open>The loop of \<open>setup\<close>, entered when \<open>load_bitstream\<close> is true, from a count of retries.\<close>

function load_loop :: "int \<Rightarrow> fpga \<Rightarrow> (unit, fpga) result" where
  "load_loop retries s =
     (case remote_command (load_bitstream_cmd s) [''pty'', ''dir'', ''source_bashrc''] s of
        Pending s' \<Rightarrow> Pending s'
      | Raises e s' \<Rightarrow> Raises e s'
      | Returns (app, status) s1 \<Rightarrow>
          (case watch_command re_search None None None 1024 app of
             None \<Rightarrow> Pending s1
           | Some (out, rest) \<Rightarrow>
               if status = 0 then Returns () s1
               else if sublist ''Synchronization failed'' out then Raises sync_failed s1
               else if retries + 1 \<ge> 5 then Raises (load_failed (retries + 1)) s1
               else load_loop (retries + 1) s1))"
  by pat_completeness auto
termination
  by (relation "measure (\<lambda>(retries, s). nat (5 - retries))") auto

declare load_loop.simps [simp del]

text \<open>
  The loop of \<open>launch_console\<close>. It ends with the session of the successful attempt, as left
  by the two watches, and the one line that names the device.
\<close>

definition device_lines :: "string \<Rightarrow> string \<Rightarrow> string list" where
  "device_lines ident out =
     filter (\<lambda>line. sublist (''@1#'' @ ident @ ''#Intel '') line \<and> sublist '': '' line)
       (py_split out [LF])"

function launch_loop :: "int \<Rightarrow> int \<Rightarrow> fpga \<Rightarrow> (tick list \<times> string, fpga) result" where
  "launch_loop max_retries retries s =
     (case remote_command (run_console_cmd s) [''pty'', ''dir'', ''source_bashrc''] s of
        Pending s' \<Rightarrow> Pending s'
      | Raises e s' \<Rightarrow> Raises e s'
      | Returns (app, status) s1 \<Rightarrow>
          (case watch_command re_search None (Some 10) None 1024 app of
             None \<Rightarrow> Pending s1
           | Some (greeting, app1) \<Rightarrow>
               (let s2 = send (''source path.tcl'' @ [LF]) s1
                in case watch_command re_search None (Some 2) None 1024 app1 of
                     None \<Rightarrow> Pending s2
                   | Some (out, app2) \<Rightarrow>
                       (case device_lines (fpga_id s) out of
                          [line] \<Rightarrow> Returns (app2, line) s2
                        | _ \<Rightarrow>
                            (let s3 = send [CHR 0x03] s2
                             in if retries + 1 \<ge> max_retries
                                then Raises (device_failed (retries + 1)) s3
                                else launch_loop max_retries (retries + 1) (sleep 1000 s3))))))"
  by pat_completeness auto
termination
  by (relation "measure (\<lambda>(max_retries, retries, s). nat (max_retries - retries))") auto

declare launch_loop.simps [simp del]

definition device_of :: "string \<Rightarrow> string" where
  "device_of line = (case py_split line '':'' of [] \<Rightarrow> [] | d # _ \<Rightarrow> d)"

definition launch_console :: "int \<Rightarrow> fpga \<Rightarrow> (unit, fpga) result" where
  "launch_console max_retries s =
     and_then (launch_loop max_retries 0 s)
       (\<lambda>(app, line) s'.
          and_then
            (run_jtag_commands (Single (''set_jtag '' @ device_of line))
               (s'\<lparr>chan := app, jtag_console := True\<rparr>))
            (\<lambda>out s''. Returns () s''))"

text \<open>\<open>setup\<close> of the device class.\<close>

definition fpga_setup :: "bool \<Rightarrow> fpga \<Rightarrow> (unit, fpga) result" where
  "fpga_setup load_bitstream s =
     (if load_bitstream then and_then (load_loop 0 s) (\<lambda>_ s'. launch_console 5 s')
      else launch_console 5 s)"

section \<open>Scenarios and the vocabulary of the claims\<close>

text \<open>
  The words of the specification: the trailing \<open>n\<close> characters of a transcript, and the
  transcript accumulated after reading some ticks.
\<close>

definition trailing :: "nat \<Rightarrow> 'a list \<Rightarrow> 'a list" where
  "trailing n s = drop (length s - n) s"

definition chunk :: "tick \<Rightarrow> string" where
  "chunk t = received (stdout_data t) @ received (stderr_data t)"

definition transcript :: "string \<Rightarrow> tick list \<Rightarrow> string" where
  "transcript output ts = output @ concat (map chunk ts)"

text \<open>
  The window the \<open>j\<close>-th loop test looks at, and a tick at which neither the stop
  condition nor the deadline ends the loop.
\<close>

definition window_at :: "int \<Rightarrow> tick list \<Rightarrow> nat \<Rightarrow> string" where
  "window_at max_match_length ts j = trailing (nat max_match_length) (transcript [] (take j ts))"

definition quiet :: "(tick \<Rightarrow> bool) option \<Rightarrow> real option \<Rightarrow> tick \<Rightarrow> bool" where
  "quiet stop_condition timeout t = (\<not> stop_test stop_condition t \<and> \<not> (timeout \<noteq> None \<and> late t))"

definition idle :: tick where
  "idle = \<lparr>exit_ready = False, stdout_data = None, stderr_data = None, late = False\<rparr>"

definition says :: "string \<Rightarrow> tick" where
  "says d = \<lparr>exit_ready = False, stdout_data = Some d, stderr_data = None, late = False\<rparr>"

text \<open>
  A pass of the loop of \<open>wait_transmission_done\<close> up to its comparison is a poll: one second
  of sleep, then the query of the transmitted-packet counter. \<open>polls n\<close> runs \<open>n\<close> polls in a
  row and gives the counts they report.
\<close>

definition poll :: "dpdk_pktgen \<Rightarrow> (int, dpdk_pktgen) result" where
  "poll s = get_nb_tx_pkts None (sleep 1000 s)"

fun polls :: "nat \<Rightarrow> dpdk_pktgen \<Rightarrow> (int list \<times> dpdk_pktgen) option" where
  "polls 0 s = Some ([], s)"
| "polls (Suc n) s =
     (case poll s of
        Returns v s1 \<Rightarrow>
          (case polls n s1 of Some (vs, s') \<Rightarrow> Some (v # vs, s') | None \<Rightarrow> None)
      | Raises e s1 \<Rightarrow> None
      | Pending s1 \<Rightarrow> None)"

definition no_progress :: error where
  "no_progress = RuntimeError ''Pktgen is not making progress''"

definition after_poll :: "dpdk_pktgen \<Rightarrow> tick list \<Rightarrow> dpdk_pktgen" where
  "after_poll s rest =
     s\<lparr>chan := rest,
       trace := trace s @ [Sleep 1000, Send (stats_query ''port'' ''opackets'' (tx_port s))]\<rparr>"

text \<open>
  A controller with transmit port 3 and a target of 5 packets, a console that answers a
  query with one number, and a reply to a statistics query that echoes two numbers.
\<close>

definition demo :: dpdk_pktgen where
  "demo = \<lparr>chan = [], trace = [], tx_port = 3, rx_port = 1, use_pcap = False,
     pktgen_active = True, ready = False, target_pkt_tx = 5, exit_status = 0\<rparr>"

definition answers :: "string \<Rightarrow> tick" where
  "answers v = says ([CR, LF] @ v @ [CR, LF])"

definition stats_reply :: string where
  "stats_reply = ''x'' @ [CR, LF] @ ''7'' @ [CR, LF] @ ''1523'' @ [CR, LF] @ ''Pktgen:/> ''"

text \<open>A tick at which the remote process has exited.\<close>

definition gone :: tick where
  "gone = \<lparr>exit_ready = True, stdout_data = None, stderr_data = None, late = False\<rparr>"

section \<open>What the patterns of the drivers match\<close>

text \<open>
  The stop patterns of the repository are plain strings, except the one of the statistics
  query. For a plain string \<^verbatim>\<open>re.search\<close> is a substring test, and the statistics pattern
  finds a line made of decimal digits only, between two line ends.
\<close>

lemma match_here_literal: "match_here (literal p) t = prefix p t"
proof (induction p arbitrary: t)
  case Nil
  show ?case by (simp add: literal_def)
next
  case (Cons c p)
  then show ?case by (cases t) (auto simp: literal_def)
qed

lemma re_search_literal: "re_search (literal p) t = sublist p t"
proof (induction t)
  case Nil
  show ?case by (simp add: match_here_literal)
next
  case (Cons c t)
  then show ?case by (simp add: match_here_literal sublist_Cons_right)
qed

lemma match_here_crlf:
  "match_here [Once (Lit CR), Once (Lit LF)] t = (\<exists>post. t = CR # LF # post)"
proof (cases t)
  case Nil
  then show ?thesis by simp
next
  case (Cons a u)
  then show ?thesis by (cases u) auto
qed

lemma match_here_digits:
  "match_here [Repeat1 Digit, Once (Lit CR), Once (Lit LF)] t =
     (\<exists>ds post. ds \<noteq> [] \<and> list_all ascii_digit ds \<and> t = ds @ CR # LF # post)"
proof (induction t)
  case Nil
  show ?case by simp
next
  case (Cons c t)
  show ?case
  proof
    assume "match_here [Repeat1 Digit, Once (Lit CR), Once (Lit LF)] (c # t)"
    then have d: "ascii_digit c"
      and m: "match_here [Repeat1 Digit, Once (Lit CR), Once (Lit LF)] t \<or>
              match_here [Once (Lit CR), Once (Lit LF)] t"
      by simp_all
    from m show "\<exists>ds post. ds \<noteq> [] \<and> list_all ascii_digit ds \<and> c # t = ds @ CR # LF # post"
    proof
      assume "match_here [Repeat1 Digit, Once (Lit CR), Once (Lit LF)] t"
      with Cons.IH obtain ds post where "ds \<noteq> []" "list_all ascii_digit ds" "t = ds @ CR # LF # post"
        by blast
      with d have "c # ds \<noteq> [] \<and> list_all ascii_digit (c # ds) \<and> c # t = (c # ds) @ CR # LF # post"
        by simp
      then show ?thesis by blast
    next
      assume "match_here [Once (Lit CR), Once (Lit LF)] t"
      then obtain post where "t = CR # LF # post" unfolding match_here_crlf by blast
      with d have "[c] \<noteq> [] \<and> list_all ascii_digit [c] \<and> c # t = [c] @ CR # LF # post" by simp
      then show ?thesis by blast
    qed
  next
    assume "\<exists>ds post. ds \<noteq> [] \<and> list_all ascii_digit ds \<and> c # t = ds @ CR # LF # post"
    then obtain ds post where ds: "ds \<noteq> []" "list_all ascii_digit ds" "c # t = ds @ CR # LF # post"
      by blast
    from ds(1) obtain d ds' where dd: "ds = d # ds'" by (cases ds) auto
    with ds have c: "ascii_digit c" and t: "t = ds' @ CR # LF # post" and a: "list_all ascii_digit ds'"
      by simp_all
    show "match_here [Repeat1 Digit, Once (Lit CR), Once (Lit LF)] (c # t)"
    proof (cases "ds' = []")
      case True
      with t have "match_here [Once (Lit CR), Once (Lit LF)] t" unfolding match_here_crlf by simp
      with c show ?thesis by simp
    next
      case False
      with a t Cons.IH have "match_here [Repeat1 Digit, Once (Lit CR), Once (Lit LF)] t" by blast
      with c show ?thesis by simp
    qed
  qed
qed

lemma re_search_stats_pattern:
  "re_search stats_pattern t =
     (\<exists>pre ds post. ds \<noteq> [] \<and> list_all ascii_digit ds \<and>
        t = pre @ CR # LF # ds @ CR # LF # post)"
proof (induction t)
  case Nil
  show ?case by (simp add: stats_pattern_def)
next
  case (Cons c t)
  have here: "match_here stats_pattern (c # t) =
      (\<exists>ds post. ds \<noteq> [] \<and> list_all ascii_digit ds \<and> c # t = CR # LF # ds @ CR # LF # post)"
  proof (cases t)
    case Nil
    then show ?thesis by (simp add: stats_pattern_def)
  next
    case (Cons b u)
    then show ?thesis
      using match_here_digits[of u] by (auto simp: stats_pattern_def)
  qed
  show ?case
  proof
    assume "re_search stats_pattern (c # t)"
    then have "match_here stats_pattern (c # t) \<or> re_search stats_pattern t" by simp
    then show "\<exists>pre ds post. ds \<noteq> [] \<and> list_all ascii_digit ds \<and>
        c # t = pre @ CR # LF # ds @ CR # LF # post"
    proof
      assume "match_here stats_pattern (c # t)"
      with here obtain ds post where "ds \<noteq> []" "list_all ascii_digit ds"
        "c # t = [] @ CR # LF # ds @ CR # LF # post" by auto
      then show ?thesis by blast
    next
      assume "re_search stats_pattern t"
      with Cons.IH obtain pre ds post where "ds \<noteq> []" "list_all ascii_digit ds"
        "t = pre @ CR # LF # ds @ CR # LF # post" by blast
      then have "ds \<noteq> [] \<and> list_all ascii_digit ds \<and>
        c # t = (c # pre) @ CR # LF # ds @ CR # LF # post" by simp
      then show ?thesis by blast
    qed
  next
    assume "\<exists>pre ds post. ds \<noteq> [] \<and> list_all ascii_digit ds \<and>
        c # t = pre @ CR # LF # ds @ CR # LF # post"
    then obtain pre ds post where p: "ds \<noteq> []" "list_all ascii_digit ds"
        "c # t = pre @ CR # LF # ds @ CR # LF # post" by blast
    show "re_search stats_pattern (c # t)"
    proof (cases pre)
      case Nil
      with p here have "match_here stats_pattern (c # t)" by auto
      then show ?thesis by simp
    next
      case (Cons a pre')
      with p have "t = pre' @ CR # LF # ds @ CR # LF # post" by simp
      with p(1,2) Cons.IH have "re_search stats_pattern t" by blast
      then show ?thesis by simp
    qed
  qed
qed

section \<open>The stop pattern of watch_command\<close>

lemma window_trailing:
  assumes m: "0 < m"
  shows "py_slice_from s (- min (int (length s)) m) = trailing (nat m) s"
proof -
  have "nat (int (length s) - m) = length s - nat m" using m by arith
  then show ?thesis using m
    by (cases s) (auto simp: py_slice_from_def trailing_def min_def)
qed

lemma continue_running_window:
  "0 < m \<Longrightarrow> continue_running search (Some p) m stopped out =
     (\<not> search p (trailing (nat m) out) \<and> \<not> stopped)"
  by (simp add: continue_running_def Let_def window_trailing)

lemma watch_loop_hit:
  "0 < m \<Longrightarrow> search p (trailing (nat m) out) \<Longrightarrow>
   watch_loop search sc to (Some p) m out ts = Some (out, ts)"
  by (cases ts) (simp_all add: continue_running_window)

lemma watch_loop_pass:
  "0 < m \<Longrightarrow> \<not> search p (trailing (nat m) out) \<Longrightarrow> \<not> sc t \<Longrightarrow> \<not> (to \<and> late t) \<Longrightarrow>
   watch_loop search sc to (Some p) m out (t # ts) =
   watch_loop search sc to (Some p) m (out @ chunk t) ts"
  by (auto simp add: continue_running_window chunk_def Let_def)

lemma transcript_Cons: "transcript out (t # ts) = transcript (out @ chunk t) ts"
  by (simp add: transcript_def)

lemma watch_loop_first_match:
  assumes m: "0 < m"
  shows "k \<le> length ts \<Longrightarrow>
     (\<forall>j<k. \<not> search p (trailing (nat m) (transcript out (take j ts))) \<and>
            \<not> sc (ts ! j) \<and> \<not> (to \<and> late (ts ! j))) \<Longrightarrow>
     search p (trailing (nat m) (transcript out (take k ts))) \<Longrightarrow>
     watch_loop search sc to (Some p) m out ts = Some (transcript out (take k ts), drop k ts)"
proof (induction k arbitrary: out ts)
  case 0
  then show ?case using m by (simp add: watch_loop_hit transcript_def)
next
  case (Suc k)
  then obtain t ts' where ts: "ts = t # ts'" by (cases ts) auto
  from Suc.prems(2) have h0: "\<not> search p (trailing (nat m) out)" "\<not> sc t" "\<not> (to \<and> late t)"
    unfolding ts by (auto simp: transcript_def dest: spec[of _ 0])
  have step: "watch_loop search sc to (Some p) m out ts =
      watch_loop search sc to (Some p) m (out @ chunk t) ts'"
    unfolding ts using m h0 by (rule watch_loop_pass)
  have "\<forall>j<k. \<not> search p (trailing (nat m) (transcript (out @ chunk t) (take j ts'))) \<and>
            \<not> sc (ts' ! j) \<and> \<not> (to \<and> late (ts' ! j))"
  proof (intro allI impI)
    fix j assume "j < k"
    then have "Suc j < Suc k" by simp
    with Suc.prems(2) show "\<not> search p (trailing (nat m) (transcript (out @ chunk t) (take j ts'))) \<and>
            \<not> sc (ts' ! j) \<and> \<not> (to \<and> late (ts' ! j))"
      unfolding ts by (auto simp: transcript_Cons dest!: spec[of _ "Suc j"])
  qed
  moreover have "k \<le> length ts'" using Suc.prems(1) ts by simp
  moreover have "search p (trailing (nat m) (transcript (out @ chunk t) (take k ts')))"
    using Suc.prems(3) unfolding ts by (simp add: transcript_Cons)
  ultimately have "watch_loop search sc to (Some p) m (out @ chunk t) ts' =
      Some (transcript (out @ chunk t) (take k ts'), drop k ts')"
    using Suc.IH[of ts' "out @ chunk t"] by blast
  with step show ?case unfolding ts by (simp add: transcript_Cons)
qed

lemma watch_loop_no_match:
  assumes m: "0 < m"
  shows "(\<forall>j\<le>length ts. \<not> search p (trailing (nat m) (transcript out (take j ts)))) \<Longrightarrow>
     (\<forall>j<length ts. \<not> sc (ts ! j) \<and> \<not> (to \<and> late (ts ! j))) \<Longrightarrow>
     watch_loop search sc to (Some p) m out ts = None"
proof (induction ts arbitrary: out)
  case Nil
  then show ?case using m by (simp add: continue_running_window transcript_def)
next
  case (Cons t ts)
  from Cons.prems(1) have h0: "\<not> search p (trailing (nat m) out)"
    by (auto simp: transcript_def dest: spec[of _ 0])
  from Cons.prems(2) have h1: "\<not> sc t" "\<not> (to \<and> late t)" by auto
  have a: "\<forall>j\<le>length ts. \<not> search p (trailing (nat m) (transcript (out @ chunk t) (take j ts)))"
  proof (intro allI impI)
    fix j assume "j \<le> length ts"
    then have "Suc j \<le> length (t # ts)" by simp
    with Cons.prems(1) show "\<not> search p (trailing (nat m) (transcript (out @ chunk t) (take j ts)))"
      by (auto simp: transcript_Cons dest!: spec[of _ "Suc j"])
  qed
  have b: "\<forall>j<length ts. \<not> sc (ts ! j) \<and> \<not> (to \<and> late (ts ! j))"
    using Cons.prems(2) by auto
  have "watch_loop search sc to (Some p) m out (t # ts) =
      watch_loop search sc to (Some p) m (out @ chunk t) ts"
    using watch_loop_pass[where search=search and p=p and sc=sc and t=t and to=to and out=out and m=m]
      m h0 h1 by blast
  then show ?case using Cons.IH[of "out @ chunk t"] a b by simp
qed

lemma watch_loop_stop_reason:
  assumes m: "0 < m"
  shows "watch_loop search sc False (Some p) m out ts = Some (out', rest) \<Longrightarrow>
     search p (trailing (nat m) out') \<or> (\<exists>t ts'. rest = t # ts' \<and> sc t)"
proof (induction ts arbitrary: out)
  case Nil
  then show ?case using m by (auto simp: continue_running_window split: if_splits)
next
  case (Cons t ts)
  show ?case
  proof (cases "search p (trailing (nat m) out) \<or> sc t")
    case True
    then have "watch_loop search sc False (Some p) m out (t # ts) = Some (out, t # ts)"
      using m by (auto simp: continue_running_window)
    with Cons.prems True show ?thesis by auto
  next
    case False
    then have "watch_loop search sc False (Some p) m out (t # ts) =
        watch_loop search sc False (Some p) m (out @ chunk t) ts"
      using m watch_loop_pass[where search=search and p=p and sc=sc and t=t and to=False and out=out and m=m]
      by blast
    with Cons.prems Cons.IH[of "out @ chunk t"] show ?thesis by simp
  qed
qed

text \<open>
  Claim C1, for a window of at least one character. With \<open>stop_pattern = P\<close> and
  \<open>0 < max_match_length\<close>, \<open>watch_command\<close> stops at the first loop test at which \<open>P\<close>
  matches within the trailing \<open>max_match_length\<close> characters of the transcript accumulated so
  far, having read exactly the ticks before that test; while no window matches and neither
  the stop condition nor the deadline ends the loop it keeps running, whatever the
  transcript holds before the window; and without a timeout a return means that \<open>P\<close> matches
  the window of the returned transcript or that the stop condition held.
\<close>

theorem watch_command_stop_pattern_window:
  assumes "0 < max_match_length"
  shows "(\<forall>k\<le>length ts.
            (\<forall>j<k. \<not> search P (window_at max_match_length ts j) \<and> quiet stop_condition timeout (ts ! j)) \<and>
            search P (window_at max_match_length ts k) \<longrightarrow>
            watch_command search stop_condition timeout (Some P) max_match_length ts =
              Some (transcript [] (take k ts), drop k ts)) \<and>
         ((\<forall>j\<le>length ts. \<not> search P (window_at max_match_length ts j)) \<and>
          (\<forall>j<length ts. quiet stop_condition timeout (ts ! j)) \<longrightarrow>
            watch_command search stop_condition timeout (Some P) max_match_length ts = None) \<and>
         (\<forall>out rest.
            watch_command search stop_condition None (Some P) max_match_length ts = Some (out, rest) \<longrightarrow>
            search P (trailing (nat max_match_length) out) \<or>
            (\<exists>t ts'. rest = t # ts' \<and> stop_test stop_condition t))"
proof (intro conjI allI impI)
  fix k
  assume k: "k \<le> length ts"
    and h: "(\<forall>j<k. \<not> search P (window_at max_match_length ts j) \<and> quiet stop_condition timeout (ts ! j)) \<and>
            search P (window_at max_match_length ts k)"
  from h have "\<forall>j<k. \<not> search P (trailing (nat max_match_length) (transcript [] (take j ts))) \<and>
            \<not> stop_test stop_condition (ts ! j) \<and> \<not> (timeout \<noteq> None \<and> late (ts ! j))"
    by (simp add: window_at_def quiet_def)
  moreover from h have "search P (trailing (nat max_match_length) (transcript [] (take k ts)))"
    by (simp add: window_at_def)
  ultimately show "watch_command search stop_condition timeout (Some P) max_match_length ts =
              Some (transcript [] (take k ts), drop k ts)"
    unfolding watch_command_def using assms k
    by (intro watch_loop_first_match) auto
next
  assume h: "(\<forall>j\<le>length ts. \<not> search P (window_at max_match_length ts j)) \<and>
          (\<forall>j<length ts. quiet stop_condition timeout (ts ! j))"
  then have "\<forall>j\<le>length ts. \<not> search P (trailing (nat max_match_length) (transcript [] (take j ts)))"
    by (simp add: window_at_def)
  moreover from h have "\<forall>j<length ts. \<not> stop_test stop_condition (ts ! j) \<and> \<not> (timeout \<noteq> None \<and> late (ts ! j))"
    by (simp add: quiet_def)
  ultimately show "watch_command search stop_condition timeout (Some P) max_match_length ts = None"
    unfolding watch_command_def using assms
    by (intro watch_loop_no_match) auto
next
  fix out rest
  assume "watch_command search stop_condition None (Some P) max_match_length ts = Some (out, rest)"
  then show "search P (trailing (nat max_match_length) out) \<or>
            (\<exists>t ts'. rest = t # ts' \<and> stop_test stop_condition t)"
    unfolding watch_command_def using assms watch_loop_stop_reason[where search=search and p=P and sc="stop_test stop_condition" and m=max_match_length and out="[]" and ts=ts and out'=out and rest=rest]
    by simp
qed

text \<open>
  A run of C1: \<open>ab\<close> occurs in the transcript \<open>abc\<close> of the second loop test, but before
  its window \<open>bc\<close>, and the loop goes on; at the third test the window is \<open>ab\<close> and the loop
  stops.
\<close>

theorem watch_command_stop_pattern_window_witness:
  "(0::int) < 2 \<and>
   re_search (literal ''ab'') (transcript [] (take 1 [says ''abc'', says ''xab'', idle])) \<and>
   \<not> re_search (literal ''ab'') (window_at 2 [says ''abc'', says ''xab'', idle] 1) \<and>
   re_search (literal ''ab'') (window_at 2 [says ''abc'', says ''xab'', idle] 2) \<and>
   watch_command re_search None None (Some (literal ''ab'')) 2 [says ''abc'', says ''xab'', idle] =
     Some (''abcxab'', [idle])"
proof -
  let ?ts = "[says ''abc'', says ''xab'', idle]"
  have pos: "(0::int) < 2" by simp
  have w0: "\<not> re_search (literal ''ab'') (window_at 2 ?ts 0)"
    by (simp add: window_at_def trailing_def transcript_def literal_def)
  have w1: "\<not> re_search (literal ''ab'') (window_at 2 ?ts 1)"
    by (simp add: window_at_def trailing_def transcript_def chunk_def says_def received_def literal_def)
  have w2: "re_search (literal ''ab'') (window_at 2 ?ts 2)"
    by (simp add: window_at_def trailing_def transcript_def chunk_def says_def received_def literal_def)
  have before: "re_search (literal ''ab'') (transcript [] (take 1 ?ts))"
    by (simp add: transcript_def chunk_def says_def received_def literal_def)
  have q: "\<forall>j<2. \<not> re_search (literal ''ab'') (window_at 2 ?ts j) \<and> quiet None None (?ts ! j)"
    using w0 w1 by (auto simp: less_Suc_eq numeral_2_eq_2 quiet_def stop_test_def says_def)
  have "watch_command re_search None None (Some (literal ''ab'')) 2 ?ts =
      Some (transcript [] (take 2 ?ts), drop 2 ?ts)"
    using watch_command_stop_pattern_window[OF pos, where search=re_search and P="literal ''ab''"
        and ts="?ts" and stop_condition=None and timeout=None, THEN conjunct1, rule_format, of 2] q w2
    by simp
  then have "watch_command re_search None None (Some (literal ''ab'')) 2 ?ts = Some (''abcxab'', [idle])"
    by (simp add: transcript_def chunk_def says_def received_def idle_def)
  with pos before w1 w2 show ?thesis by blast
qed

text \<open>
  C1 as the claim states it fails for \<open>max_match_length = 0\<close>: the slice \<open>output[-0:]\<close> is
  the whole transcript, so the loop stops on \<open>a\<close> in \<open>ab\<close> although the trailing zero
  characters hold no match.
\<close>

theorem watch_command_zero_window_counterexample:
  "watch_command re_search None None (Some (literal ''a'')) 0 [says ''ab'', idle] = Some (''ab'', [idle]) \<and>
   \<not> stop_test None (says ''ab'') \<and> \<not> stop_test None idle \<and>
   trailing (nat 0) ''ab'' = [] \<and>
   \<not> re_search (literal ''a'') (trailing (nat 0) ''ab'')"
  by (simp add: watch_command_def continue_running_def py_slice_from_def literal_def says_def
      idle_def received_def stop_test_def trailing_def)

section \<open>Statistics\<close>

lemma digit_chr_ascii: "d < 10 \<Longrightarrow> ascii_digit (digit_chr d) \<and> digit_val (digit_chr d) = int d"
proof -
  assume "d < 10"
  then have "d \<in> {0, 1, 2, 3, 4, 5, 6, 7, 8, 9}" by auto
  then show ?thesis
    by (auto simp: digit_chr_def ascii_digit_def digit_val_def)
qed

lemma str_nat_digits:
  "str_nat n \<noteq> [] \<and> list_all ascii_digit (str_nat n) \<and>
   foldl (\<lambda>acc c. 10 * acc + digit_val c) 0 (str_nat n) = int n"
proof (induction n rule: str_nat.induct)
  case (1 n)
  show ?case
  proof (cases "n < 10")
    case True
    then show ?thesis using digit_chr_ascii[of n] by (simp add: str_nat.simps[of n])
  next
    case False
    have m: "n mod 10 < 10" by simp
    from False 1 have ih: "str_nat (n div 10) \<noteq> []" "list_all ascii_digit (str_nat (n div 10))"
      "foldl (\<lambda>acc c. 10 * acc + digit_val c) 0 (str_nat (n div 10)) = int (n div 10)"
      by auto
    have "int n = 10 * int (n div 10) + int (n mod 10)" by (simp add: zdiv_int zmod_int)
    with False ih digit_chr_ascii[OF m] show ?thesis
      by (simp add: str_nat.simps[of n])
  qed
qed

lemma py_int_str_int: "0 \<le> n \<Longrightarrow> py_int (str_int n) = Inr n"
  using str_nat_digits[of "nat n"] by (simp add: py_int_def str_int_def)

lemma isdigit_str_int: "0 \<le> n \<Longrightarrow> isdigit (str_int n)"
  using str_nat_digits[of "nat n"]
  by (auto simp: isdigit_def str_int_def isdigit_char_def list_all_iff)

lemma stats_value_last:
  assumes "py_split out [CR, LF] = pre @ [l] @ post" "isdigit l" "\<forall>x\<in>set post. \<not> isdigit x"
  shows "stats_value out = py_int l"
proof -
  from assms(3) have "filter isdigit post = []" by (simp add: filter_empty_conv)
  with assms(1,2) show ?thesis by (simp add: stats_value_def)
qed

text \<open>
  Claim C5. When the watch of a statistics query returns a transcript, the value of the
  query is \<open>int\<close> of the last line of the transcript, split on CR LF, that \<open>isdigit\<close> accepts;
  when that line is the decimal text of \<open>n\<close> the query returns \<open>n\<close>.
\<close>

theorem get_stats_last_digit_line:
  assumes "pktgen_active s"
    and "watch_command re_search None None (Some stats_pattern) 1024 (chan s) = Some (out, rest)"
    and "py_split out [CR, LF] = pre @ [l] @ post"
    and "isdigit l"
    and "\<forall>x\<in>set post. \<not> isdigit x"
  shows "stats_value out = py_int l \<and>
         get_stats subtype stat_name port s =
           (case py_int l of
              Inr v \<Rightarrow> Returns v (send (stats_query subtype stat_name port) s\<lparr>chan := rest\<rparr>)
            | Inl e \<Rightarrow> Raises e (send (stats_query subtype stat_name port) s\<lparr>chan := rest\<rparr>)) \<and>
         (\<forall>n\<ge>0. l = str_int n \<longrightarrow>
            get_stats subtype stat_name port s =
              Returns n (send (stats_query subtype stat_name port) s\<lparr>chan := rest\<rparr>))"
proof -
  have v: "stats_value out = py_int l" using assms(3-5) by (rule stats_value_last)
  have c1: "chan (send (stats_query subtype stat_name port) s) = chan s" by (simp add: send_def)
  have g: "get_stats subtype stat_name port s =
           (case py_int l of
              Inr v \<Rightarrow> Returns v (send (stats_query subtype stat_name port) s\<lparr>chan := rest\<rparr>)
            | Inl e \<Rightarrow> Raises e (send (stats_query subtype stat_name port) s\<lparr>chan := rest\<rparr>))"
    using assms(1,2) v by (simp add: get_stats_def Let_def c1 split: sum.splits)
  from g show ?thesis using v by (auto simp: py_int_str_int)
qed

text \<open>
  The transcript of the specification: the digit-only lines \<open>7\<close> and \<open>1523\<close>, then the
  prompt; the query returns 1523.
\<close>

theorem get_stats_last_digit_line_witness:
  "pktgen_active (demo\<lparr>chan := [says stats_reply]\<rparr>) \<and>
   py_split stats_reply [CR, LF] = [''x'', ''7''] @ [''1523''] @ [''Pktgen:/> ''] \<and>
   isdigit ''7'' \<and> isdigit ''1523'' \<and> \<not> isdigit ''Pktgen:/> '' \<and>
   get_stats ''port'' ''opackets'' 3 (demo\<lparr>chan := [says stats_reply]\<rparr>) =
     Returns 1523 (send (stats_query ''port'' ''opackets'' 3) demo)"
proof -
  let ?s = "demo\<lparr>chan := [says stats_reply]\<rparr>"
  have a: "pktgen_active ?s" by (simp add: demo_def)
  have w: "watch_command re_search None None (Some stats_pattern) 1024 (chan ?s) =
      Some (stats_reply, [])"
    by (simp add: watch_command_def continue_running_def py_slice_from_def stats_pattern_def
        says_def received_def stop_test_def stats_reply_def CR_def LF_def ascii_digit_def)
  have sp: "py_split stats_reply [CR, LF] = [''x'', ''7''] @ [''1523''] @ [''Pktgen:/> '']"
    by (simp add: py_split_def stats_reply_def CR_def LF_def)
  have d: "isdigit ''7''" "isdigit ''1523''" "\<not> isdigit ''Pktgen:/> ''"
    by (simp_all add: isdigit_def isdigit_char_def ascii_digit_def)
  have post: "\<forall>x\<in>set [''Pktgen:/> '']. \<not> isdigit x" using d(3) by simp
  have n: "''1523'' = str_int 1523" by code_simp
  have "get_stats ''port'' ''opackets'' 3 ?s =
      Returns 1523 (send (stats_query ''port'' ''opackets'' 3) ?s\<lparr>chan := []\<rparr>)"
    by (rule get_stats_last_digit_line[OF a w sp d(2) post, of "''port''" "''opackets''" 3,
          THEN conjunct2, THEN conjunct2, rule_format, of 1523]) (simp, rule n)
  moreover have "send (stats_query ''port'' ''opackets'' 3) ?s\<lparr>chan := []\<rparr> =
      send (stats_query ''port'' ''opackets'' 3) demo"
    by (simp add: send_def demo_def)
  ultimately show ?thesis using a sp d by simp
qed

section \<open>Throughput\<close>

lemma get_stats_trace:
  "trace (state_of (get_stats subtype stat_name port s)) =
     (if pktgen_active s then trace s @ [Send (stats_query subtype stat_name port)] else trace s)"
  by (simp add: get_stats_def Let_def send_def split: option.splits sum.splits)

lemma state_of_and_then_Returns:
  "state_of (and_then r (\<lambda>v s'. Returns (f v) s')) = state_of r"
  by (cases r) (simp_all add: and_then_def)

text \<open>
  Claim C7 does not hold of the code. \<open>get_tx_throughput\<close> sends the query of the field
  \<open>mbits_rx\<close> of the transmit port, the received-direction rate, and scales what the console
  answers; the query of \<open>mbits_tx\<close> is a different text and is never sent.
\<close>

theorem get_tx_throughput_queries_rx_rate:
  "trace (state_of (get_tx_throughput port s)) =
     (if pktgen_active s
      then trace s @ [Send (stats_query ''rate'' ''mbits_rx'' (tx_port s))] else trace s) \<and>
   get_tx_throughput port s =
     and_then (get_stats ''rate'' ''mbits_rx'' (tx_port s) s) (\<lambda>v s'. Returns (v * 1000000) s') \<and>
   stats_query ''rate'' ''mbits_rx'' (tx_port s) \<noteq> stats_query ''rate'' ''mbits_tx'' (tx_port s)"
  by (simp add: get_tx_throughput_def get_mbits_tx_def state_of_and_then_Returns get_stats_trace
      py_or_def stats_query_def)

section \<open>Commands on the console\<close>

lemma run_commands_loop_trace:
  "\<exists>k\<le>length cmds. (cmds \<noteq> [] \<longrightarrow> 1 \<le> k) \<and>
     trace (state_of (run_commands_loop to pat len out cmds c)) =
       trace c @ map (\<lambda>cmd. Send (cmd @ [LF])) (take k cmds)"
proof (induction cmds arbitrary: out c)
  case Nil
  show ?case by simp
next
  case (Cons cmd cmds)
  let ?c1 = "send (cmd @ [LF]) c"
  show ?case
  proof (cases "watch_command re_search None to pat len (chan ?c1)")
    case None
    then have "trace (state_of (run_commands_loop to pat len out (cmd # cmds) c)) =
        trace c @ map (\<lambda>cmd. Send (cmd @ [LF])) (take 1 (cmd # cmds))"
      by (simp add: Let_def send_def)
    then show ?thesis by (intro exI[of _ 1]) simp
  next
    case (Some r)
    obtain o' rest where r: "r = (o', rest)" by (cases r)
    from Cons.IH[of "out @ o'" "?c1\<lparr>chan := rest\<rparr>"] obtain k where
      k: "k \<le> length cmds"
      "trace (state_of (run_commands_loop to pat len (out @ o') cmds (?c1\<lparr>chan := rest\<rparr>))) =
         trace (?c1\<lparr>chan := rest\<rparr>) @ map (\<lambda>cmd. Send (cmd @ [LF])) (take k cmds)"
      by blast
    have "trace (state_of (run_commands_loop to pat len out (cmd # cmds) c)) =
        trace c @ map (\<lambda>cmd. Send (cmd @ [LF])) (take (Suc k) (cmd # cmds))"
      using Some r k(2) by (simp add: Let_def send_def)
    with k(1) show ?thesis by (intro exI[of _ "Suc k"]) simp
  qed
qed

lemma commands_trace:
  assumes "pktgen_active s"
  shows "\<exists>k\<le>length (as_list cmds). (as_list cmds \<noteq> [] \<longrightarrow> 1 \<le> k) \<and>
     trace (state_of (commands cmds to s)) =
       trace s @ map (\<lambda>cmd. Send (cmd @ [LF])) (take k (as_list cmds))"
  using assms run_commands_loop_trace[of "as_list cmds"]
  by (simp add: commands_def run_console_commands_def state_of_and_then_Returns Let_def)

lemma commands_single_trace:
  assumes "pktgen_active s"
  shows "trace (state_of (commands (Single cmd) to s)) = trace s @ [Send (cmd @ [LF])]"
proof -
  from commands_trace[OF assms, of "Single cmd" to] obtain k where
    "k \<le> 1" "1 \<le> k"
    "trace (state_of (commands (Single cmd) to s)) =
       trace s @ map (\<lambda>cmd. Send (cmd @ [LF])) (take k [cmd])"
    by auto
  moreover then have "k = 1" by simp
  ultimately show ?thesis by simp
qed

text \<open>
  Claim C8. A capacity that is not above 0 or is above 100 makes \<open>set_rate\<close> raise with the
  state as it was, so nothing is sent; a capacity in the range makes it go on to
  \<open>commands\<close> with the rate-setting command, which an active controller sends first.
\<close>

theorem set_rate_checks_capacity:
  "(capacity \<le> 0 \<or> 100 < capacity \<longrightarrow>
      set_rate str_float capacity port s = Raises AssertionError s) \<and>
   (0 < capacity \<and> capacity \<le> 100 \<longrightarrow>
      set_rate str_float capacity port s =
        commands (Single (''set '' @ str_int (py_or port (tx_port s)) @ '' rate '' @
                          str_float capacity)) (Some 0.5) s \<and>
      (pktgen_active s \<longrightarrow>
         trace (state_of (set_rate str_float capacity port s)) =
           trace s @ [Send (''set '' @ str_int (py_or port (tx_port s)) @ '' rate '' @
                            str_float capacity @ [LF])]))"
proof (intro conjI impI)
  assume "capacity \<le> 0 \<or> 100 < capacity"
  then show "set_rate str_float capacity port s = Raises AssertionError s"
    by (auto simp: set_rate_def)
next
  assume "0 < capacity \<and> capacity \<le> 100"
  then show "set_rate str_float capacity port s =
        commands (Single (''set '' @ str_int (py_or port (tx_port s)) @ '' rate '' @
                          str_float capacity)) (Some 0.5) s"
    by (simp add: set_rate_def Let_def)
next
  assume "0 < capacity \<and> capacity \<le> 100" and "pktgen_active s"
  then show "trace (state_of (set_rate str_float capacity port s)) =
           trace s @ [Send (''set '' @ str_int (py_or port (tx_port s)) @ '' rate '' @
                            str_float capacity @ [LF])]"
    by (simp add: set_rate_def Let_def commands_single_trace)
qed

lemma str_int_3: "str_int 3 = ''3''"
  by code_simp

text \<open>
  \<open>set_rate\<close> at 150 and at 50 percent.
\<close>

theorem set_rate_checks_capacity_witness:
  "(100::real) < 150 \<and> set_rate (\<lambda>c. ''150'') 150 None demo = Raises AssertionError demo \<and>
   (0::real) < 50 \<and> (50::real) \<le> 100 \<and> pktgen_active demo \<and>
   trace (state_of (set_rate (\<lambda>c. ''50'') 50 None demo)) = [Send (''set 3 rate 50'' @ [LF])]"
proof -
  have a: "(100::real) < 150" and b: "(0::real) < 50 \<and> (50::real) \<le> 100" by simp_all
  have act: "pktgen_active demo" by (simp add: demo_def)
  have r: "set_rate (\<lambda>c. ''150'') 150 None demo = Raises AssertionError demo"
    using set_rate_checks_capacity[of 150 "\<lambda>c. ''150''" None demo] a by simp
  have "trace (state_of (set_rate (\<lambda>c. ''50'') 50 None demo)) =
      trace demo @ [Send (''set '' @ str_int (py_or None (tx_port demo)) @ '' rate '' @ ''50'' @ [LF])]"
    using set_rate_checks_capacity[of 50 "\<lambda>c. ''50''" None demo, THEN conjunct2, rule_format,
        OF b, THEN conjunct2, rule_format, OF act] by simp
  then have "trace (state_of (set_rate (\<lambda>c. ''50'') 50 None demo)) = [Send (''set 3 rate 50'' @ [LF])]"
    by (simp add: demo_def py_or_def str_int_3)
  with a b act r show ?thesis by simp
qed

section \<open>The transmit port argument\<close>




section \<open>Waiting for the transmission\<close>

lemma get_stats_frame:
  "target_pkt_tx (state_of (get_stats a b p s)) = target_pkt_tx s \<and>
   tx_port (state_of (get_stats a b p s)) = tx_port s \<and>
   rx_port (state_of (get_stats a b p s)) = rx_port s \<and>
   pktgen_active (state_of (get_stats a b p s)) = pktgen_active s \<and>
   ready (state_of (get_stats a b p s)) = ready s \<and>
   use_pcap (state_of (get_stats a b p s)) = use_pcap s"
  by (simp add: get_stats_def Let_def send_def split: option.splits sum.splits)

lemma poll_frame:
  assumes "poll s = Returns v s1"
  shows "target_pkt_tx s1 = target_pkt_tx s" "tx_port s1 = tx_port s"
    "pktgen_active s1 = pktgen_active s" "pktgen_active s"
    "trace s1 = trace s @ [Sleep 1000, Send (stats_query ''port'' ''opackets'' (tx_port s))]"
proof -
  let ?q = "get_stats ''port'' ''opackets'' (tx_port s) (sleep 1000 s)"
  from assms have r: "?q = Returns v s1"
    by (simp add: poll_def get_nb_tx_pkts_def py_or_def sleep_def)
  from get_stats_frame[of "''port''" "''opackets''" "tx_port s" "sleep 1000 s"] r
  show "target_pkt_tx s1 = target_pkt_tx s" "tx_port s1 = tx_port s"
    "pktgen_active s1 = pktgen_active s"
    by (simp_all add: sleep_def)
  from r show act: "pktgen_active s"
    by (auto simp: get_stats_def sleep_def split: if_splits)
  from get_stats_trace[of "''port''" "''opackets''" "tx_port s" "sleep 1000 s"] r act
  show "trace s1 = trace s @ [Sleep 1000, Send (stats_query ''port'' ''opackets'' (tx_port s))]"
    by (simp add: sleep_def)
qed

lemma wait_loop_equal:
  "p < target_pkt_tx s \<Longrightarrow> poll s = Returns p s1 \<Longrightarrow> wait_loop p s = Raises no_progress s1"
  by (simp add: wait_loop.simps[of p s] poll_def no_progress_def)

lemma wait_loop_more:
  "p < target_pkt_tx s \<Longrightarrow> poll s = Returns v s1 \<Longrightarrow> v \<noteq> p \<Longrightarrow> wait_loop p s = wait_loop v s1"
  by (simp add: wait_loop.simps[of p s] poll_def)

lemma wait_loop_reached:
  "\<not> p < target_pkt_tx s \<Longrightarrow> wait_loop p s = Returns () s"
  by (simp add: wait_loop.simps[of p s])

lemma polls_length: "polls n s = Some (vs, s') \<Longrightarrow> length vs = n"
  by (induction n arbitrary: s vs) (auto split: result.splits option.splits)

lemma polls_trace:
  "polls n s = Some (vs, s') \<Longrightarrow>
   tx_port s' = tx_port s \<and>
   trace s' = trace s @
     concat (replicate n [Sleep 1000, Send (stats_query ''port'' ''opackets'' (tx_port s))])"
proof (induction n arbitrary: s vs)
  case 0
  then show ?case by simp
next
  case (Suc n)
  from Suc.prems obtain v s1 vs' where p: "poll s = Returns v s1"
    and r: "polls n s1 = Some (vs', s')"
    by (auto split: result.splits option.splits)
  from Suc.IH[OF r] poll_frame(2,5)[OF p] show ?case by simp
qed

lemma wait_loop_progress:
  "polls n s = Some (vs, s') \<Longrightarrow> p < target_pkt_tx s \<Longrightarrow>
   (\<forall>i<n. vs ! i \<noteq> (p # vs) ! i) \<Longrightarrow> (\<forall>i<n. vs ! i < target_pkt_tx s) \<Longrightarrow>
   wait_loop p s = wait_loop (last (p # vs)) s' \<and> target_pkt_tx s' = target_pkt_tx s"
proof (induction n arbitrary: s vs p)
  case 0
  then show ?case by simp
next
  case (Suc n)
  from Suc.prems(1) obtain v s1 vs' where p: "poll s = Returns v s1"
    and r: "polls n s1 = Some (vs', s')" and vs: "vs = v # vs'"
    by (auto split: result.splits option.splits)
  from Suc.prems(3) have v: "v \<noteq> p" unfolding vs by auto
  from Suc.prems(4) have vt: "v < target_pkt_tx s" unfolding vs by auto
  have t1: "target_pkt_tx s1 = target_pkt_tx s" using poll_frame(1)[OF p] .
  have a: "\<forall>i<n. vs' ! i \<noteq> (v # vs') ! i"
  proof (intro allI impI)
    fix i assume "i < n"
    then have "Suc i < Suc n" by simp
    with Suc.prems(3) have "vs ! Suc i \<noteq> (p # vs) ! Suc i" by blast
    then show "vs' ! i \<noteq> (v # vs') ! i" unfolding vs by simp
  qed
  have b: "\<forall>i<n. vs' ! i < target_pkt_tx s1"
  proof (intro allI impI)
    fix i assume "i < n"
    then have "Suc i < Suc n" by simp
    with Suc.prems(4) have "vs ! Suc i < target_pkt_tx s" by blast
    then show "vs' ! i < target_pkt_tx s1" unfolding vs t1 by simp
  qed
  have "wait_loop p s = wait_loop v s1"
    using Suc.prems(2) p v by (rule wait_loop_more)
  moreover have "wait_loop v s1 = wait_loop (last (v # vs')) s' \<and> target_pkt_tx s' = target_pkt_tx s1"
    using r vt a b unfolding t1[symmetric] by (intro Suc.IH) auto
  ultimately show ?case unfolding vs using t1 by simp
qed

lemma wait_loop_returns:
  "polls n s = Some (vs, s') \<Longrightarrow> 0 < n \<Longrightarrow> p < target_pkt_tx s \<Longrightarrow>
   (\<forall>i<n. vs ! i \<noteq> (p # vs) ! i) \<Longrightarrow> (\<forall>i<n - 1. vs ! i < target_pkt_tx s) \<Longrightarrow>
   target_pkt_tx s \<le> vs ! (n - 1) \<Longrightarrow>
   wait_loop p s = Returns () s'"
proof (induction n arbitrary: s vs p)
  case 0
  then show ?case by simp
next
  case (Suc n)
  from Suc.prems(1) obtain v s1 vs' where p: "poll s = Returns v s1"
    and r: "polls n s1 = Some (vs', s')" and vs: "vs = v # vs'"
    by (auto split: result.splits option.splits)
  from Suc.prems(4) have v: "v \<noteq> p" unfolding vs by auto
  have t1: "target_pkt_tx s1 = target_pkt_tx s" using poll_frame(1)[OF p] .
  have step: "wait_loop p s = wait_loop v s1"
    using Suc.prems(3) p v by (rule wait_loop_more)
  show ?case
  proof (cases n)
    case 0
    with r have "vs' = []" "s' = s1" by auto
    with Suc.prems(6) 0 vs have "\<not> v < target_pkt_tx s1" unfolding t1 by simp
    then have "wait_loop v s1 = Returns () s1" by (rule wait_loop_reached)
    with step \<open>s' = s1\<close> show ?thesis by simp
  next
    case (Suc m)
    from Suc.prems(5) Suc have vt: "v < target_pkt_tx s1" unfolding vs t1 by auto
    have a: "\<forall>i<n. vs' ! i \<noteq> (v # vs') ! i"
    proof (intro allI impI)
      fix i assume "i < n"
      then have "Suc i < Suc n" by simp
      with Suc.prems(4) have "vs ! Suc i \<noteq> (p # vs) ! Suc i" by blast
      then show "vs' ! i \<noteq> (v # vs') ! i" unfolding vs by simp
    qed
    have b: "\<forall>i<n - 1. vs' ! i < target_pkt_tx s1"
    proof (intro allI impI)
      fix i assume "i < n - 1"
      then have "Suc i < Suc n - 1" using Suc by simp
      with Suc.prems(5) have "vs ! Suc i < target_pkt_tx s" by blast
      then show "vs' ! i < target_pkt_tx s1" unfolding vs t1 by simp
    qed
    have c: "target_pkt_tx s1 \<le> vs' ! (n - 1)"
      using Suc.prems(6) Suc unfolding vs t1 by simp
    have "wait_loop v s1 = Returns () s'"
      using r _ vt a b c by (rule Suc.IH) (simp add: Suc)
    with step show ?thesis by simp
  qed
qed

lemma wait_loop_stall:
  "polls n s = Some (vs, s') \<Longrightarrow> p < target_pkt_tx s \<Longrightarrow>
   Suc i < n \<Longrightarrow> vs ! i = vs ! Suc i \<Longrightarrow> (\<forall>j\<le>i. vs ! j < target_pkt_tx s) \<Longrightarrow>
   \<exists>s''. wait_loop p s = Raises no_progress s''"
proof (induction n arbitrary: s vs p i)
  case 0
  then show ?case by simp
next
  case (Suc n)
  from Suc.prems(1) obtain v s1 vs' where p: "poll s = Returns v s1"
    and r: "polls n s1 = Some (vs', s')" and vs: "vs = v # vs'"
    by (auto split: result.splits option.splits)
  have t1: "target_pkt_tx s1 = target_pkt_tx s" using poll_frame(1)[OF p] .
  from Suc.prems(5) have vt: "v < target_pkt_tx s1" unfolding vs t1 by auto
  show ?case
  proof (cases "v = p")
    case True
    with Suc.prems(2) p show ?thesis by (auto intro: wait_loop_equal)
  next
    case False
    have step: "wait_loop p s = wait_loop v s1"
      using Suc.prems(2) p False by (rule wait_loop_more)
    show ?thesis
    proof (cases i)
      case 0
      from Suc.prems(3) 0 obtain m where n: "n = Suc m" by (cases n) auto
      from r n obtain v2 s2 where p2: "poll s1 = Returns v2 s2" and "\<exists>w. vs' = v2 # w"
        by (auto split: result.splits option.splits)
      with Suc.prems(4) 0 vs have "v2 = v" by auto
      with vt p2 have "wait_loop v s1 = Raises no_progress s2" by (auto intro: wait_loop_equal)
      with step show ?thesis by auto
    next
      case (Suc i')
      have a: "Suc i' < n" using Suc.prems(3) Suc by simp
      have b: "vs' ! i' = vs' ! Suc i'" using Suc.prems(4) Suc vs by simp
      have c: "\<forall>j\<le>i'. vs' ! j < target_pkt_tx s1"
      proof (intro allI impI)
        fix j assume "j \<le> i'"
        then have "Suc j \<le> i" using Suc by simp
        with Suc.prems(5) have "vs ! Suc j < target_pkt_tx s" by blast
        then show "vs' ! j < target_pkt_tx s1" unfolding vs t1 by simp
      qed
      from Suc.IH[OF r vt a b c] step show ?thesis by simp
    qed
  qed
qed

lemma py_int_nonneg: "py_int l = Inr v \<Longrightarrow> 0 \<le> v"
proof -
  have f: "\<And>acc. 0 \<le> acc \<Longrightarrow> list_all ascii_digit l \<Longrightarrow>
      0 \<le> foldl (\<lambda>acc c. 10 * acc + digit_val c) acc l"
  proof (induction l)
    case Nil
    then show ?case by simp
  next
    case (Cons c l)
    from Cons.prems(2) have "ascii_digit c" by simp
    then have "0 \<le> digit_val c" by (auto simp: ascii_digit_def digit_val_def)
    with Cons.prems have "0 \<le> 10 * acc + digit_val c" "list_all ascii_digit l" by simp_all
    then show ?case using Cons.IH by simp
  qed
  assume "py_int l = Inr v"
  then show ?thesis using f[of 0] by (auto simp: py_int_def split: if_splits)
qed

lemma poll_nonneg: "poll s = Returns v s1 \<Longrightarrow> 0 \<le> v"
  by (auto simp: poll_def get_nb_tx_pkts_def get_stats_def stats_value_def Let_def
      split: if_splits option.splits sum.splits dest: py_int_nonneg)

lemma polls_first_nonneg: "polls n s = Some (vs, s') \<Longrightarrow> 0 < n \<Longrightarrow> 0 \<le> vs ! 0"
  by (cases n) (auto split: result.splits option.splits dest: poll_nonneg)

text \<open>
  Claim C2, with the remembered count of the first poll made explicit. Let the first \<open>n\<close>
  polls report \<open>vs\<close>. If the first poll reports 0 against a positive target, or two
  consecutive polls report the same count and the counts up to there are below the target,
  \<open>wait_transmission_done\<close> raises the no-progress error. If each
  poll differs from the one before it (the first from 0) and all are below the target, the
  loop is still running after them. If the last of them is the first to reach the target,
  \<open>wait_transmission_done\<close> returns after exactly these polls. Each poll follows a sleep of
  one second.
\<close>

theorem wait_transmission_done_polls:
  assumes "pktgen_active s" and "polls n s = Some (vs, s')"
  shows "(0 < n \<and> 0 < target_pkt_tx s \<and> vs ! 0 = 0 \<longrightarrow>
            (\<exists>s''. wait_transmission_done s = Raises no_progress s'')) \<and>
         (\<forall>i. Suc i < n \<and> vs ! i = vs ! Suc i \<and> (\<forall>j\<le>i. vs ! j < target_pkt_tx s) \<longrightarrow>
            (\<exists>s''. wait_transmission_done s = Raises no_progress s'')) \<and>
         (0 < target_pkt_tx s \<and> (\<forall>i<n. vs ! i \<noteq> (0 # vs) ! i) \<and>
          (\<forall>i<n. vs ! i < target_pkt_tx s) \<longrightarrow>
            wait_transmission_done s = wait_loop (last (0 # vs)) s') \<and>
         (0 < n \<and> 0 < target_pkt_tx s \<and> (\<forall>i<n. vs ! i \<noteq> (0 # vs) ! i) \<and>
          (\<forall>i<n - 1. vs ! i < target_pkt_tx s) \<and> target_pkt_tx s \<le> vs ! (n - 1) \<longrightarrow>
            wait_transmission_done s = Returns () s') \<and>
         trace s' = trace s @
           concat (replicate n [Sleep 1000, Send (stats_query ''port'' ''opackets'' (tx_port s))])"
proof (intro conjI allI impI)
  assume h: "0 < n \<and> 0 < target_pkt_tx s \<and> vs ! 0 = 0"
  then obtain m where "n = Suc m" by (cases n) auto
  with assms(2) h obtain s1 where "poll s = Returns 0 s1"
    by (auto split: result.splits option.splits)
  with h have "wait_loop 0 s = Raises no_progress s1" by (intro wait_loop_equal) auto
  with assms(1) show "\<exists>s''. wait_transmission_done s = Raises no_progress s''"
    by (simp add: wait_transmission_done_def)
next
  fix i
  assume h: "Suc i < n \<and> vs ! i = vs ! Suc i \<and> (\<forall>j\<le>i. vs ! j < target_pkt_tx s)"
  then have "0 < n" by simp
  with assms(2) have "0 \<le> vs ! 0" by (rule polls_first_nonneg)
  moreover from h have "vs ! 0 < target_pkt_tx s" by blast
  ultimately have "0 < target_pkt_tx s" by simp
  with assms(2) h have "\<exists>s''. wait_loop 0 s = Raises no_progress s''"
    by (intro wait_loop_stall[where i=i and vs=vs and n=n and s'=s']) auto
  with assms(1) show "\<exists>s''. wait_transmission_done s = Raises no_progress s''"
    by (simp add: wait_transmission_done_def)
next
  assume "0 < target_pkt_tx s \<and> (\<forall>i<n. vs ! i \<noteq> (0 # vs) ! i) \<and>
          (\<forall>i<n. vs ! i < target_pkt_tx s)"
  with assms(2) have "wait_loop 0 s = wait_loop (last (0 # vs)) s'"
    using wait_loop_progress[of n s vs s' 0] by blast
  with assms(1) show "wait_transmission_done s = wait_loop (last (0 # vs)) s'"
    by (simp add: wait_transmission_done_def)
next
  assume "0 < n \<and> 0 < target_pkt_tx s \<and> (\<forall>i<n. vs ! i \<noteq> (0 # vs) ! i) \<and>
          (\<forall>i<n - 1. vs ! i < target_pkt_tx s) \<and> target_pkt_tx s \<le> vs ! (n - 1)"
  with assms(2) have "wait_loop 0 s = Returns () s'"
    using wait_loop_returns[of n s vs s' 0] by blast
  with assms(1) show "wait_transmission_done s = Returns () s'"
    by (simp add: wait_transmission_done_def)
next
  from polls_trace[OF assms(2)]
  show "trace s' = trace s @
           concat (replicate n [Sleep 1000, Send (stats_query ''port'' ''opackets'' (tx_port s))])"
    by simp
qed

text \<open>
  Claim C10. The remembered count starts at 0: with a positive target, a first poll that
  reads 0 raises the no-progress error after that one sleep and one query.
\<close>

theorem wait_transmission_done_first_poll_zero:
  assumes "pktgen_active s" and "0 < target_pkt_tx s" and "poll s = Returns 0 s'"
  shows "wait_transmission_done s = Raises no_progress s' \<and>
         trace s' = trace s @ [Sleep 1000, Send (stats_query ''port'' ''opackets'' (tx_port s))]"
  using assms wait_loop_equal[of 0 s s'] poll_frame(5)[of s 0 s']
  by (simp add: wait_transmission_done_def)

text \<open>
  Polls 2, 3, 7 against the target 5 return at the third poll; polls 2, 2 raise.
\<close>

theorem wait_transmission_done_polls_witness:
  "pktgen_active (demo\<lparr>chan := [answers ''2'', answers ''3'', answers ''7'']\<rparr>) \<and>
   target_pkt_tx (demo\<lparr>chan := [answers ''2'', answers ''3'', answers ''7'']\<rparr>) = 5 \<and>
   (\<exists>s'. polls 3 (demo\<lparr>chan := [answers ''2'', answers ''3'', answers ''7'']\<rparr>) = Some ([2, 3, 7], s') \<and>
         wait_transmission_done (demo\<lparr>chan := [answers ''2'', answers ''3'', answers ''7'']\<rparr>) =
           Returns () s') \<and>
   (\<exists>s'. polls 2 (demo\<lparr>chan := [answers ''2'', answers ''2'']\<rparr>) = Some ([2, 2], s')) \<and>
   (\<exists>s''. wait_transmission_done (demo\<lparr>chan := [answers ''2'', answers ''2'']\<rparr>) =
           Raises no_progress s'')"
proof -
  let ?A = "demo\<lparr>chan := [answers ''2'', answers ''3'', answers ''7'']\<rparr>"
  let ?B = "demo\<lparr>chan := [answers ''2'', answers ''2'']\<rparr>"
  have actA: "pktgen_active ?A" and actB: "pktgen_active ?B" and tA: "target_pkt_tx ?A = 5"
    and tB: "target_pkt_tx ?B = 5"
    by (simp_all add: demo_def)
  have "map_option fst (polls 3 ?A) = Some [2, 3, 7]" by code_simp
  then obtain sA where pA: "polls 3 ?A = Some ([2, 3, 7], sA)"
    by (cases "polls 3 ?A") auto
  have "map_option fst (polls 2 ?B) = Some [2, 2]" by code_simp
  then obtain sB where pB: "polls 2 ?B = Some ([2, 2], sB)"
    by (cases "polls 2 ?B") auto
  have hA: "(0::nat) < 3 \<and> 0 < target_pkt_tx ?A \<and>
      (\<forall>i<3. [2, 3, 7] ! i \<noteq> (0 # [2, 3, 7 :: int]) ! i) \<and>
      (\<forall>i<3 - 1. [2, 3, 7] ! i < target_pkt_tx ?A) \<and> target_pkt_tx ?A \<le> [2, 3, 7] ! (3 - 1)"
    unfolding tA by (auto simp: less_Suc_eq numeral_3_eq_3)
  have rA: "wait_transmission_done ?A = Returns () sA"
    using wait_transmission_done_polls[OF actA pA, THEN conjunct2, THEN conjunct2, THEN conjunct2,
        THEN conjunct1, rule_format, OF hA] .
  have hB: "Suc 0 < 2 \<and> [2, 2 :: int] ! 0 = [2, 2] ! Suc 0 \<and> (\<forall>j\<le>0. [2, 2] ! j < target_pkt_tx ?B)"
    unfolding tB by simp
  have rB: "\<exists>s''. wait_transmission_done ?B = Raises no_progress s''"
    using wait_transmission_done_polls[OF actB pB, THEN conjunct2, THEN conjunct1, rule_format,
        OF hB] .
  from actA tA pA rA pB rB show ?thesis by blast
qed

text \<open>
  C2 as the claim states it fails: the polls would report 0, 3, 7, no two consecutive
  counts are the same and the third reaches the target 5, yet the first poll raises.
\<close>

theorem wait_transmission_done_first_poll_counterexample:
  "target_pkt_tx (demo\<lparr>chan := [answers ''0'', answers ''3'', answers ''7'']\<rparr>) = 5 \<and>
   map_option fst (polls 3 (demo\<lparr>chan := [answers ''0'', answers ''3'', answers ''7'']\<rparr>)) =
     Some [0, 3, 7] \<and>
   wait_transmission_done (demo\<lparr>chan := [answers ''0'', answers ''3'', answers ''7'']\<rparr>) =
     Raises no_progress
       (after_poll (demo\<lparr>chan := [answers ''0'', answers ''3'', answers ''7'']\<rparr>)
          [answers ''3'', answers ''7''])"
  by code_simp

text \<open>
  A console that answers 0 to the first query.
\<close>

theorem wait_transmission_done_first_poll_zero_witness:
  "pktgen_active (demo\<lparr>chan := [answers ''0'']\<rparr>) \<and>
   0 < target_pkt_tx (demo\<lparr>chan := [answers ''0'']\<rparr>) \<and>
   poll (demo\<lparr>chan := [answers ''0'']\<rparr>) = Returns 0 (after_poll (demo\<lparr>chan := [answers ''0'']\<rparr>) []) \<and>
   wait_transmission_done (demo\<lparr>chan := [answers ''0'']\<rparr>) =
     Raises no_progress (after_poll (demo\<lparr>chan := [answers ''0'']\<rparr>) [])"
proof -
  let ?Z = "demo\<lparr>chan := [answers ''0'']\<rparr>"
  have a: "pktgen_active ?Z" and t: "0 < target_pkt_tx ?Z" by (simp_all add: demo_def)
  have p: "poll ?Z = Returns 0 (after_poll ?Z [])" by code_simp
  from wait_transmission_done_first_poll_zero[OF a t p] a t p show ?thesis by blast
qed

section \<open>The readiness gate\<close>

lemma run_commands_loop_frame:
  fixes c :: dpdk_pktgen
  shows "ready (state_of (run_commands_loop to pat len out cmds c)) = ready c \<and>
         pktgen_active (state_of (run_commands_loop to pat len out cmds c)) = pktgen_active c"
proof (induction cmds arbitrary: out c)
  case Nil
  show ?case by simp
next
  case (Cons cmd cmds)
  show ?case
  proof (cases "watch_command re_search None to pat len (chan (send (cmd @ [LF]) c))")
    case None
    then show ?thesis by (simp add: Let_def send_def)
  next
    case (Some r)
    obtain o' rest where r: "r = (o', rest)" by (cases r)
    from Cons.IH[of "out @ o'" "send (cmd @ [LF]) c\<lparr>chan := rest\<rparr>"] Some r
    show ?thesis by (simp add: Let_def send_def)
  qed
qed

lemma commands_frame:
  "ready (state_of (commands cmds to s)) = ready s"
  using run_commands_loop_frame[of _ _ _ "[]" "as_list cmds" s]
  by (simp add: commands_def run_console_commands_def state_of_and_then_Returns Let_def)

lemma wait_ready_Returns:
  assumes "wait_ready s = Returns () s'"
  shows "ready s'" "trace s' = trace s" "pktgen_active s" "pktgen_active s'"
    "tx_port s' = tx_port s" "use_pcap s' = use_pcap s"
    "\<exists>out rest. watch_command re_search None None (Some ready_prompt) 1024 (chan s) = Some (out, rest) \<and>
        s' = s\<lparr>chan := rest, ready := True\<rparr> \<and>
        (re_search ready_prompt (trailing 1024 out) \<or> (\<exists>t ts. rest = t # ts \<and> exit_ready t))"
proof -
  from assms have act: "pktgen_active s"
    by (auto simp: wait_ready_def split: if_splits)
  from assms act obtain out rest where
    w: "watch_command re_search None None (Some ready_prompt) 1024 (chan s) = Some (out, rest)"
    and s': "s' = s\<lparr>chan := rest, ready := True\<rparr>"
    by (auto simp: wait_ready_def split: if_splits list.splits option.splits)
  from w have "re_search ready_prompt (trailing (nat 1024) out) \<or>
      (\<exists>t ts'. rest = t # ts' \<and> stop_test None t)"
    unfolding watch_command_def
    using watch_loop_stop_reason[where search=re_search and p=ready_prompt and m=1024
        and sc="stop_test None" and out="[]" and ts="chan s" and out'=out and rest=rest]
    by simp
  then have "re_search ready_prompt (trailing 1024 out) \<or> (\<exists>t ts. rest = t # ts \<and> exit_ready t)"
    by (simp add: stop_test_def)
  with w s' show "\<exists>out rest. watch_command re_search None None (Some ready_prompt) 1024 (chan s) = Some (out, rest) \<and>
        s' = s\<lparr>chan := rest, ready := True\<rparr> \<and>
        (re_search ready_prompt (trailing 1024 out) \<or> (\<exists>t ts. rest = t # ts \<and> exit_ready t))"
    by blast
  from s' act show "ready s'" "trace s' = trace s" "pktgen_active s" "pktgen_active s'"
    "tx_port s' = tx_port s" "use_pcap s' = use_pcap s"
    by simp_all
qed

lemma wait_ready_trace: "trace (state_of (wait_ready s)) = trace s"
  by (simp add: wait_ready_def split: list.splits option.splits)

lemma start_waits:
  assumes "\<not> ready s" and "trace (state_of (start f c n port s)) \<noteq> trace s"
  shows "\<exists>s1. wait_ready s = Returns () s1 \<and> ready s1 \<and> trace s1 = trace s \<and>
           start f c n port s = start f c n port s1"
proof (cases "wait_ready s")
  case (Returns u s1)
  note w = wait_ready_Returns[OF Returns[simplified]]
  from assms(1) Returns w(1,3,4,5) have "start f c n port s = start f c n port s1"
    by (simp add: start_def and_then_def Let_def)
  with Returns w(1,2) show ?thesis by simp
next
  case (Raises e s1)
  with assms(1) have "start f c n port s = Raises e s1 \<or> start f c n port s = Raises AssertionError s"
    by (simp add: start_def and_then_def Let_def)
  moreover from Raises wait_ready_trace[of s] have "trace s1 = trace s" by simp
  ultimately show ?thesis using assms(2) by auto
next
  case (Pending s1)
  with assms(1) have "start f c n port s = Pending s1 \<or> start f c n port s = Raises AssertionError s"
    by (simp add: start_def and_then_def Let_def)
  moreover from Pending wait_ready_trace[of s] have "trace s1 = trace s" by simp
  ultimately show ?thesis using assms(2) by auto
qed

lemma set_params_waits:
  assumes "\<not> ready s"
    and "trace (state_of (set_params pkt_size nb_src nb_dst init_ip init_port port s)) \<noteq> trace s"
  shows "\<exists>s1. wait_ready s = Returns () s1 \<and> ready s1 \<and> trace s1 = trace s \<and>
           set_params pkt_size nb_src nb_dst init_ip init_port port s =
           set_params pkt_size nb_src nb_dst init_ip init_port port s1"
proof -
  let ?ip = "case init_ip of None \<Rightarrow> default_init_ip | Some a \<Rightarrow> a"
  from assms(2) obtain a b where ab: "max_ip ?ip nb_src = Inr a" "max_ip ?ip nb_dst = Inr b"
    by (auto simp: set_params_def Let_def split: sum.splits)
  show ?thesis
  proof (cases "wait_ready s")
    case (Returns u s1)
    note w = wait_ready_Returns[OF Returns[simplified]]
    from assms(1) Returns w(1,5) ab
    have "set_params pkt_size nb_src nb_dst init_ip init_port port s =
          set_params pkt_size nb_src nb_dst init_ip init_port port s1"
      by (simp add: set_params_def and_then_def Let_def split: option.splits)
    with Returns w(1,2) show ?thesis by simp
  next
    case (Raises e s1)
    with assms(1) ab have "set_params pkt_size nb_src nb_dst init_ip init_port port s = Raises e s1"
      by (simp add: set_params_def and_then_def Let_def)
    moreover from Raises wait_ready_trace[of s] have "trace s1 = trace s" by simp
    ultimately show ?thesis using assms(2) by auto
  next
    case (Pending s1)
    with assms(1) ab have "set_params pkt_size nb_src nb_dst init_ip init_port port s = Pending s1"
      by (simp add: set_params_def and_then_def Let_def)
    moreover from Pending wait_ready_trace[of s] have "trace s1 = trace s" by simp
    ultimately show ?thesis using assms(2) by auto
  qed
qed

text \<open>
  Claim C6, as the code has it. \<open>wait_ready\<close> alone sets \<open>ready\<close>, sending nothing, when its
  watch returns: the idle prompt matched the last 1024 characters of the transcript, or the
  process of the generator has exited. When \<open>start\<close> or \<open>set_params\<close> is called while
  \<open>ready\<close> is false and sends anything at all, \<open>wait_ready\<close> has returned first and the
  operation goes on from the ready state it left. A statistics query does not look at
  \<open>ready\<close>: it sends its query at once and leaves \<open>ready\<close> as it was, as \<open>set_rate\<close> and
  \<open>stop\<close> leave it.
\<close>

theorem readiness_gate:
  "(\<forall>s'. wait_ready s = Returns () s' \<longrightarrow>
      ready s' \<and> trace s' = trace s \<and>
      (\<exists>out rest.
         watch_command re_search None None (Some ready_prompt) 1024 (chan s) = Some (out, rest) \<and>
         (re_search ready_prompt (trailing 1024 out) \<or> (\<exists>t ts. rest = t # ts \<and> exit_ready t)))) \<and>
   (\<not> ready s \<and> trace (state_of (start str_float capacity nb_pkts port s)) \<noteq> trace s \<longrightarrow>
      (\<exists>s1. wait_ready s = Returns () s1 \<and> ready s1 \<and> trace s1 = trace s \<and>
            start str_float capacity nb_pkts port s = start str_float capacity nb_pkts port s1)) \<and>
   (\<not> ready s \<and>
    trace (state_of (set_params pkt_size nb_src nb_dst init_ip init_port port s)) \<noteq> trace s \<longrightarrow>
      (\<exists>s1. wait_ready s = Returns () s1 \<and> ready s1 \<and> trace s1 = trace s \<and>
            set_params pkt_size nb_src nb_dst init_ip init_port port s =
            set_params pkt_size nb_src nb_dst init_ip init_port port s1)) \<and>
   ready (state_of (get_stats subtype stat_name p s)) = ready s \<and>
   trace (state_of (get_stats subtype stat_name p s)) =
     (if pktgen_active s then trace s @ [Send (stats_query subtype stat_name p)] else trace s) \<and>
   ready (state_of (set_rate str_float capacity port s)) = ready s \<and>
   ready (state_of (stop port s)) = ready s"
proof (intro conjI allI impI)
  fix s'
  assume w: "wait_ready s = Returns () s'"
  from wait_ready_Returns(1)[OF w] show "ready s'" .
  from wait_ready_Returns(2)[OF w] show "trace s' = trace s" .
  from wait_ready_Returns(7)[OF w]
  show "\<exists>out rest.
         watch_command re_search None None (Some ready_prompt) 1024 (chan s) = Some (out, rest) \<and>
         (re_search ready_prompt (trailing 1024 out) \<or> (\<exists>t ts. rest = t # ts \<and> exit_ready t))"
    by blast
next
  assume "\<not> ready s \<and> trace (state_of (start str_float capacity nb_pkts port s)) \<noteq> trace s"
  then show "\<exists>s1. wait_ready s = Returns () s1 \<and> ready s1 \<and> trace s1 = trace s \<and>
            start str_float capacity nb_pkts port s = start str_float capacity nb_pkts port s1"
    using start_waits[of s str_float capacity nb_pkts port] by blast
next
  assume "\<not> ready s \<and>
    trace (state_of (set_params pkt_size nb_src nb_dst init_ip init_port port s)) \<noteq> trace s"
  then show "\<exists>s1. wait_ready s = Returns () s1 \<and> ready s1 \<and> trace s1 = trace s \<and>
            set_params pkt_size nb_src nb_dst init_ip init_port port s =
            set_params pkt_size nb_src nb_dst init_ip init_port port s1"
    using set_params_waits[of s pkt_size nb_src nb_dst init_ip init_port port] by blast
next
  show "ready (state_of (get_stats subtype stat_name p s)) = ready s"
    using get_stats_frame[of subtype stat_name p s] by simp
  show "trace (state_of (get_stats subtype stat_name p s)) =
     (if pktgen_active s then trace s @ [Send (stats_query subtype stat_name p)] else trace s)"
    by (rule get_stats_trace)
  show "ready (state_of (set_rate str_float capacity port s)) = ready s"
    by (simp add: set_rate_def Let_def commands_frame)
  show "ready (state_of (stop port s)) = ready s"
    by (simp add: stop_def commands_frame)
qed

text \<open>
  \<open>start\<close> on a console that shows the idle prompt and then answers the counter query.
\<close>

theorem readiness_gate_witness:
  "\<not> ready (demo\<lparr>chan := [says (CR # LF # ''Pktgen:/>''), answers ''7'']\<rparr>) \<and>
   trace (state_of (start (\<lambda>c. ''50'') 50 10 None
      (demo\<lparr>chan := [says (CR # LF # ''Pktgen:/>''), answers ''7'']\<rparr>))) \<noteq>
   trace (demo\<lparr>chan := [says (CR # LF # ''Pktgen:/>''), answers ''7'']\<rparr>) \<and>
   wait_ready (demo\<lparr>chan := [says (CR # LF # ''Pktgen:/>''), answers ''7'']\<rparr>) =
     Returns () (demo\<lparr>chan := [answers ''7''], ready := True\<rparr>) \<and>
   start (\<lambda>c. ''50'') 50 10 None (demo\<lparr>chan := [says (CR # LF # ''Pktgen:/>''), answers ''7'']\<rparr>) =
   start (\<lambda>c. ''50'') 50 10 None (demo\<lparr>chan := [answers ''7''], ready := True\<rparr>)"
proof -
  let ?W = "demo\<lparr>chan := [says (CR # LF # ''Pktgen:/>''), answers ''7'']\<rparr>"
  let ?W1 = "demo\<lparr>chan := [answers ''7''], ready := True\<rparr>"
  have nr: "\<not> ready ?W" by (simp add: demo_def)
  have tr: "trace (state_of (start (\<lambda>c. ''50'') 50 10 None ?W)) \<noteq> trace ?W" by code_simp
  have w: "wait_ready ?W = Returns () ?W1" by code_simp
  from readiness_gate[of ?W "\<lambda>c. ''50''" 50 10 None, THEN conjunct2, THEN conjunct1, rule_format,
      OF conjI[OF nr tr]]
  obtain s1 where "wait_ready ?W = Returns () s1"
    "start (\<lambda>c. ''50'') 50 10 None ?W = start (\<lambda>c. ''50'') 50 10 None s1"
    by blast
  with w have "start (\<lambda>c. ''50'') 50 10 None ?W = start (\<lambda>c. ''50'') 50 10 None ?W1" by simp
  with nr tr w show ?thesis by blast
qed

text \<open>
  C6 as the claim states it fails twice. A statistics query on a controller that is not
  ready sends its query, gets its answer and leaves \<open>ready\<close> false; and \<open>wait_ready\<close> sets
  \<open>ready\<close> on a console that never showed the prompt, because its process exited.
\<close>

theorem readiness_gate_counterexample:
  "\<not> ready (demo\<lparr>chan := [answers ''7'']\<rparr>) \<and>
   get_nb_tx_pkts None (demo\<lparr>chan := [answers ''7'']\<rparr>) =
     Returns 7 (demo\<lparr>chan := [], trace := [Send (stats_query ''port'' ''opackets'' 3)]\<rparr>) \<and>
   \<not> ready (demo\<lparr>chan := [], trace := [Send (stats_query ''port'' ''opackets'' 3)]\<rparr>) \<and>
   wait_ready (demo\<lparr>exit_status := 1, chan := [says ''EAL: no ports'', gone]\<rparr>) =
     Returns () (demo\<lparr>exit_status := 1, chan := [gone], ready := True\<rparr>) \<and>
   transcript [] [says ''EAL: no ports''] = ''EAL: no ports'' \<and>
   \<not> re_search ready_prompt ''EAL: no ports''"
  by code_simp

section \<open>The sessions of the device\<close>

lemma remote_command_unexpected:
  "remote_command command [''pty'', ''dir'', ''source_bashrc''] s = Raises (TypeError ''dir'') s"
  by (simp add: remote_command_def unexpected_keywords_def remote_command_parameters_def)

text \<open>
  A call with keywords the helper has, as the packet generator makes it, opens the next
  session.
\<close>

lemma remote_command_bound:
  "remote_command command [''pty'', ''print_command''] (s\<lparr>sessions := x # xs\<rparr>) =
     Returns x (s\<lparr>sessions := xs, trace := trace s @ [Launch command]\<rparr>)"
  by (simp add: remote_command_def unexpected_keywords_def remote_command_parameters_def)

lemma load_loop_raises: "load_loop retries s = Raises (TypeError ''dir'') s"
  by (subst load_loop.simps) (simp add: remote_command_unexpected)

lemma launch_loop_raises: "launch_loop max_retries retries s = Raises (TypeError ''dir'') s"
  by (subst launch_loop.simps) (simp add: remote_command_unexpected)

text \<open>
  Claim C3. The bitstream-load stage makes no attempt at all. The first statement of the
  loop of \<open>setup\<close> calls \<open>remote_command\<close> with the keywords \<open>dir\<close> and \<open>source_bashrc\<close>, which
  are not parameters of it: the call raises \<open>TypeError\<close> before a session is opened, from
  every count of retries and whatever the sessions to come would report. So \<open>setup\<close> with
  \<open>load_bitstream\<close> true raises \<open>TypeError\<close> and leaves the device as it was: nothing is
  launched, no exit status is read, and none of the three outcomes of an attempt (status 0,
  the marker, a retry) is ever reached.
\<close>

theorem setup_raises_type_error:
  "load_loop retries s = Raises (TypeError ''dir'') s \<and>
   fpga_setup True s = Raises (TypeError ''dir'') s \<and>
   state_of (fpga_setup True s) = s"
  by (simp add: fpga_setup_def load_loop_raises and_then_def)

text \<open>
  Claim C4. The console launch never sees a transcript. The first statement of the loop of
  \<open>launch_console\<close> is the same call of \<open>remote_command\<close> with the keywords \<open>dir\<close> and
  \<open>source_bashrc\<close>: it raises \<open>TypeError\<close> for every \<open>max_retries\<close> and every device, before a
  session is opened. No line is searched for the device, no \<open>set_jtag\<close> command is sent,
  no interrupt byte is sent, nothing sleeps, and the error is never the one that names a
  count of retries. \<open>setup\<close> without the bitstream load ends the same way.
\<close>

theorem launch_console_raises_type_error:
  "launch_loop max_retries retries s = Raises (TypeError ''dir'') s \<and>
   launch_console max_retries s = Raises (TypeError ''dir'') s \<and>
   state_of (launch_console max_retries s) = s \<and>
   fpga_setup False s = Raises (TypeError ''dir'') s"
  by (simp add: launch_console_def fpga_setup_def launch_loop_raises and_then_def)

end
